theory Spec2Isabelle
  imports Complex_Main "HOL-Library.AList"
begin

section \<open>Strings\<close>

text \<open>
  A JavaScript string is modelled by the list of its code units, and the model covers the
  code units below 256 (the type \<open>char\<close>). The string operations the parser calls
  (\<open>trim\<close>, \<open>toLowerCase\<close>, \<open>split\<close>, \<open>join\<close>, \<open>indexOf\<close>) follow ECMAScript on that
  range.
\<close>

definition is_ws :: "char \<Rightarrow> bool" where
  \<comment> \<open>WhiteSpace and LineTerminator below 256: TAB, LF, VT, FF, CR, SP, NBSP.\<close>
  "is_ws c = (of_char c \<in> {9, 10, 11, 12, 13, 32, 160 :: nat})"

definition trim :: "string \<Rightarrow> string" where
  "trim s = rev (dropWhile is_ws (rev (dropWhile is_ws s)))"

definition lower_char :: "char \<Rightarrow> char" where
  \<comment> \<open>an upper case letter (A to Z, and the letters from 192 to 222) has its lower case
      32 above, which is the same code with bit 5 set\<close>
  "lower_char c =
     (let n = (of_char c :: nat)
      in if (65 \<le> n \<and> n \<le> 90) \<or> (192 \<le> n \<and> n \<le> 222 \<and> n \<noteq> 215)
         then (case c of Char b0 b1 b2 b3 b4 b5 b6 b7 \<Rightarrow> Char b0 b1 b2 b3 b4 True b6 b7)
         else c)"

definition toLowerCase :: "string \<Rightarrow> string" where
  "toLowerCase s = map lower_char s"

definition is_letter :: "char \<Rightarrow> bool" where
  \<comment> \<open>the class \<open>[a-z]\<close> under the flag \<open>i\<close>\<close>
  "is_letter c =
     (let n = (of_char c :: nat) in (65 \<le> n \<and> n \<le> 90) \<or> (97 \<le> n \<and> n \<le> 122))"

definition is_line_terminator :: "char \<Rightarrow> bool" where
  \<comment> \<open>what \<open>.\<close> does not match\<close>
  "is_line_terminator c = (of_char c \<in> {10, 13 :: nat})"

fun indexOf :: "string \<Rightarrow> string \<Rightarrow> nat option" where
  "indexOf sep [] = (if sep = [] then Some 0 else None)"
| "indexOf sep (c # cs) =
     (if take (length sep) (c # cs) = sep then Some 0
      else map_option Suc (indexOf sep cs))"

lemma indexOf_bound: "indexOf sep s = Some i \<Longrightarrow> i + length sep \<le> length s"
proof (induction s arbitrary: i)
  case Nil
  then show ?case by (simp split: if_splits)
next
  case (Cons c cs)
  show ?case
  proof (cases "take (length sep) (c # cs) = sep")
    case True
    then have "length (take (length sep) (c # cs)) = length sep"
      by simp
    then have "length sep \<le> length (c # cs)"
      by simp
    with True Cons.prems show ?thesis by simp
  next
    case False
    with Cons.prems obtain j where "indexOf sep cs = Some j" "i = Suc j"
      by auto
    with Cons.IH show ?thesis by simp
  qed
qed

function split_nonempty :: "string \<Rightarrow> string \<Rightarrow> string list" where
  "split_nonempty sep s =
     (if sep = [] then [s]
      else (case indexOf sep s of
              None \<Rightarrow> [s]
            | Some i \<Rightarrow> take i s # split_nonempty sep (drop (i + length sep) s)))"
  by pat_completeness auto
termination
proof (relation "measure (\<lambda>(sep, s). length s)")
  show "wf (measure (\<lambda>(sep, s). length s))" by simp
next
  fix sep s :: string and i :: nat
  assume "sep \<noteq> []" and "indexOf sep s = Some i"
  then have "i + length sep \<le> length s" and "0 < length sep"
    using indexOf_bound [of sep s i] by auto
  then show "((sep, drop (i + length sep) s), (sep, s)) \<in> measure (\<lambda>(sep, s). length s)"
    by (cases sep) simp_all
qed

declare split_nonempty.simps [simp del]

definition js_split :: "string \<Rightarrow> string \<Rightarrow> string list" where
  \<comment> \<open>\<open>s.split(sep)\<close>: an empty separator cuts between the code units\<close>
  "js_split sep s = (if sep = [] then map (\<lambda>c. [c]) s else split_nonempty sep s)"

fun join :: "string \<Rightarrow> string list \<Rightarrow> string" where
  "join sep [] = []"
| "join sep [x] = x"
| "join sep (x # y # ys) = x @ sep @ join sep (y # ys)"

definition segments :: "string \<Rightarrow> string list" where
  \<comment> \<open>\<open>path.split(".").filter(Boolean)\<close>: the empty string is the only falsy string\<close>
  "segments path = filter (\<lambda>p. p \<noteq> []) (js_split ''.'' path)"


section \<open>Values\<close>

text \<open>
  A number is \<open>NaN\<close>, an infinity or a finite value. Every finite double is a rational, so
  \<open>Fin\<close> carries a rational; the sign of zero, which no operation of the parser observes,
  is not represented.
\<close>

datatype jsnum = NaN | PosInf | NegInf | Fin rat

definition isFinite :: "jsnum \<Rightarrow> bool" where
  "isFinite n = (case n of Fin _ \<Rightarrow> True | _ \<Rightarrow> False)"

text \<open>
  The values the parser stores. A plain object is the list of its own properties in
  insertion order. An array is the list of its elements (a hole reads as \<open>undefined\<close>,
  and nothing in the parser tells the two apart) together with the named properties that
  a write through a path may put on it; a date (its time value) and a \<open>File\<close> (an opaque
  handle) carry such properties as well. A function is a method that an object inherits
  from a built-in prototype (\<open>constructor\<close>, \<open>toString\<close>, ...), carried by its name: a path
  can read one, and the parser then stores it like any other value. A \<open>File\<close> is a value
  here, so two entries that carry the same \<open>File\<close> object do not share the properties
  written on it.
\<close>

datatype jsval =
    VUndefined
  | VNull
  | VBool bool
  | VNum jsnum
  | VStr string
  | VFunction string
  | VObj "(string \<times> jsval) list"
  | VArr "jsval list" "(string \<times> jsval) list"
  | VDate int "(string \<times> jsval) list"
  | VFile nat "(string \<times> jsval) list"

datatype objkind = PlainObject | ArrayObject | DateObject | FileObject

text \<open>
  The parts of the JavaScript engine that the parser relies on are parameters of the
  model. The parsers that \<open>castValue\<close> calls: the value of a non-blank numeric literal
  (\<open>Number\<close> on a string that is not only white space), the time value of \<open>new Date(s)\<close>
  (\<open>None\<close> for an invalid date) and \<open>JSON.parse\<close> (\<open>None\<close> for a \<open>SyntaxError\<close>). The built-in
  prototypes, which a property access \<open>cur[p]\<close> reaches when \<open>cur\<close> has no own property
  \<open>p\<close>: \<open>prototype_method k p\<close> holds when an object of the kind \<open>k\<close> inherits a method
  named \<open>p\<close> (\<open>constructor\<close>, \<open>toString\<close>, \<open>hasOwnProperty\<close>, ... for every kind, \<open>push\<close>,
  \<open>map\<close>, ... for an array), and \<open>file_accessor h p\<close> is the value of the accessor \<open>p\<close> of
  the \<open>File\<close> \<open>h\<close>, a string (\<open>name\<close>, \<open>type\<close>) or a number (\<open>size\<close>, \<open>lastModified\<close>), and
  \<open>None\<close> when \<open>p\<close> is no accessor of a \<open>File\<close>. These accessors have a getter and no
  setter.
\<close>

record engine =
  numeric_literal :: "string \<Rightarrow> jsnum"
  date_parse :: "string \<Rightarrow> int option"
  json_parse :: "string \<Rightarrow> jsval option"
  prototype_method :: "objkind \<Rightarrow> string \<Rightarrow> bool"
  file_accessor :: "nat \<Rightarrow> string \<Rightarrow> (string + jsnum) option"

definition js_Number :: "engine \<Rightarrow> string \<Rightarrow> jsnum" where
  \<comment> \<open>\<open>Number(s)\<close>: a string of white space only (the empty one too) is \<open>+0\<close>\<close>
  "js_Number rt s = (if trim s = [] then Fin 0 else numeric_literal rt (trim s))"

text \<open>
  The outcomes of a run that is not a return. The first five are the errors that the
  parser throws, the next two are exceptions of the engine. \<open>OutsideModel\<close> is no
  exception: it marks a run that reads the prototype of an object through \<open>__proto__\<close>, or
  replaces it, or reads a property of a primitive. Prototype objects are not values of
  the model, so from that point on the model does not say what the code does.
\<close>

datatype error =
    InvalidListField string  \<comment> \<open>\<open>Error('Invalid list field: "..."')\<close>\<close>
  | InvalidNumber string     \<comment> \<open>\<open>Error('Invalid number: "..."')\<close>\<close>
  | InvalidBoolean string    \<comment> \<open>\<open>Error('Invalid boolean: "..."')\<close>\<close>
  | InvalidDate string       \<comment> \<open>\<open>Error('Invalid date: "..."')\<close>\<close>
  | InvalidJSON string       \<comment> \<open>\<open>Error('Invalid JSON: "..."')\<close>\<close>
  | RangeError               \<comment> \<open>raised by the engine: invalid array length\<close>
  | TypeError                \<comment> \<open>raised by the engine: write on a primitive or on a getter-only accessor\<close>
  | OutsideModel

subsection \<open>Property access\<close>

definition is_object :: "jsval \<Rightarrow> bool" where
  \<comment> \<open>\<open>v && typeof v === "object"\<close>: the \<open>typeof\<close> of a function is \<open>"function"\<close>\<close>
  "is_object v = (case v of VObj _ \<Rightarrow> True | VArr _ _ \<Rightarrow> True | VDate _ _ \<Rightarrow> True
                  | VFile _ _ \<Rightarrow> True | _ \<Rightarrow> False)"

definition isArray :: "jsval \<Rightarrow> bool" where
  "isArray v = (case v of VArr _ _ \<Rightarrow> True | _ \<Rightarrow> False)"

definition is_digit :: "char \<Rightarrow> bool" where
  "is_digit c = (48 \<le> (of_char c :: nat) \<and> (of_char c :: nat) \<le> 57)"

definition dec_value :: "string \<Rightarrow> nat" where
  "dec_value s = foldl (\<lambda>n c. 10 * n + (of_char c - 48)) 0 s"

definition array_index :: "string \<Rightarrow> nat option" where
  \<comment> \<open>an array index: the canonical decimal string of a number below \<open>2^32 - 1\<close>\<close>
  "array_index p =
     (if p \<noteq> [] \<and> list_all is_digit p \<and> (length p = 1 \<or> hd p \<noteq> CHR ''0'')
         \<and> dec_value p < 2 ^ 32 - 1
      then Some (dec_value p) else None)"

definition kind_of :: "jsval \<Rightarrow> objkind" where
  "kind_of v = (case v of VArr _ _ \<Rightarrow> ArrayObject | VDate _ _ \<Rightarrow> DateObject
                | VFile _ _ \<Rightarrow> FileObject | _ \<Rightarrow> PlainObject)"

text \<open>
  \<open>own_value cur p\<close> is the value that \<open>cur[p]\<close> finds on the object \<open>cur\<close> itself, and
  \<open>None\<close> when the lookup goes on to the prototype chain. An array holds its \<open>length\<close>
  and its indices itself: no built-in prototype defines an index, so a hole and an index
  beyond the end read as \<open>undefined\<close>.
\<close>

definition own_value :: "jsval \<Rightarrow> string \<Rightarrow> jsval option" where
  "own_value cur p =
     (case cur of
        VObj props \<Rightarrow> map_of props p
      | VArr elems props \<Rightarrow>
          if p = ''length'' then Some (VNum (Fin (of_nat (length elems))))
          else (case array_index p of
                  Some i \<Rightarrow> Some (if i < length elems then elems ! i else VUndefined)
                | None \<Rightarrow> map_of props p)
      | VDate t props \<Rightarrow> map_of props p
      | VFile h props \<Rightarrow> map_of props p
      | _ \<Rightarrow> None)"

definition accessor_value :: "engine \<Rightarrow> jsval \<Rightarrow> string \<Rightarrow> jsval option" where
  \<comment> \<open>the value of the getter-only accessor \<open>p\<close> that \<open>cur\<close> inherits, if there is one\<close>
  "accessor_value rt cur p =
     (case cur of
        VFile h props \<Rightarrow>
          (case file_accessor rt h p of
             None \<Rightarrow> None
           | Some (Inl s) \<Rightarrow> Some (VStr s)
           | Some (Inr n) \<Rightarrow> Some (VNum n))
      | _ \<Rightarrow> None)"

definition inherited :: "engine \<Rightarrow> jsval \<Rightarrow> string \<Rightarrow> error + jsval" where
  \<comment> \<open>\<open>cur[p]\<close> when \<open>cur\<close> has no own property \<open>p\<close>: the prototype chain answers\<close>
  "inherited rt cur p =
     (if p = ''__proto__'' then Inl OutsideModel
      else (case accessor_value rt cur p of
              Some v \<Rightarrow> Inr v
            | None \<Rightarrow> if prototype_method rt (kind_of cur) p then Inr (VFunction p)
                      else Inr VUndefined))"

definition get_prop :: "engine \<Rightarrow> jsval \<Rightarrow> string \<Rightarrow> error + jsval" where
  \<comment> \<open>\<open>cur[p]\<close>; the parser reads properties of objects only\<close>
  "get_prop rt cur p =
     (if \<not> is_object cur then Inl OutsideModel
      else (case own_value cur p of
              Some v \<Rightarrow> Inr v
            | None \<Rightarrow> inherited rt cur p))"

fun ToNumber :: "engine \<Rightarrow> jsval \<Rightarrow> jsnum" where
  "ToNumber rt VUndefined = NaN"
| "ToNumber rt VNull = Fin 0"
| "ToNumber rt (VBool b) = Fin (if b then 1 else 0)"
| "ToNumber rt (VNum n) = n"
| "ToNumber rt (VStr s) = js_Number rt s"
| "ToNumber rt (VFunction f) = NaN"
| "ToNumber rt (VObj props) = NaN"
| "ToNumber rt (VDate t props) = Fin (of_int t)"
| "ToNumber rt (VFile h props) = NaN"
| "ToNumber rt (VArr [] props) = Fin 0"
| "ToNumber rt (VArr [x] props) =
     (case x of
        VUndefined \<Rightarrow> Fin 0
      | VNull \<Rightarrow> Fin 0
      | VNum n \<Rightarrow> n
      | VStr s \<Rightarrow> js_Number rt s
      | VArr ys ps \<Rightarrow> ToNumber rt (VArr ys ps)
      | _ \<Rightarrow> NaN)"
| "ToNumber rt (VArr (x # y # zs) props) = NaN"

text \<open>
  An object converts through its string: \<open>"[object Object]"\<close>, \<open>"[object File]"\<close> and the
  source text of a function are no numeric literals, and an array joins its elements with
  commas, so that two or more elements never give a literal and a single element converts
  as its own string does (a number through its shortest decimal form, which reads back as
  the number). A date converts to its time value.
\<close>

definition ToArrayLength :: "engine \<Rightarrow> jsval \<Rightarrow> nat option" where
  \<comment> \<open>ArraySetLength: \<open>ToUint32(v)\<close> must equal \<open>ToNumber(v)\<close>, else a \<open>RangeError\<close>\<close>
  "ToArrayLength rt v =
     (case ToNumber rt v of
        Fin q \<Rightarrow> if 0 \<le> q \<and> q < 2 ^ 32 \<and> q = of_int \<lfloor>q\<rfloor> then Some (nat \<lfloor>q\<rfloor>) else None
      | _ \<Rightarrow> None)"

text \<open>
  \<open>store cur p v\<close> is the object \<open>cur\<close> with the own property \<open>p\<close> holding \<open>v\<close>, every
  other property as it was: on an array, an index beyond the end extends the array.
\<close>

definition store :: "jsval \<Rightarrow> string \<Rightarrow> jsval \<Rightarrow> jsval" where
  "store cur p v =
     (case cur of
        VObj props \<Rightarrow> VObj (AList.update p v props)
      | VArr elems props \<Rightarrow>
          (case array_index p of
             Some i \<Rightarrow>
               VArr (if i < length elems then elems[i := v]
                     else elems @ replicate (i - length elems) VUndefined @ [v]) props
           | None \<Rightarrow> VArr elems (AList.update p v props))
      | VDate t props \<Rightarrow> VDate t (AList.update p v props)
      | VFile h props \<Rightarrow> VFile h (AList.update p v props)
      | _ \<Rightarrow> cur)"

definition resize :: "jsval \<Rightarrow> nat \<Rightarrow> jsval" where
  \<comment> \<open>an array after its \<open>length\<close> is set to \<open>n\<close>\<close>
  "resize cur n =
     (case cur of
        VArr elems props \<Rightarrow> VArr (take n elems @ replicate (n - length elems) VUndefined) props
      | _ \<Rightarrow> cur)"

definition is_function :: "jsval \<Rightarrow> bool" where
  "is_function v = (case v of VFunction _ \<Rightarrow> True | _ \<Rightarrow> False)"

definition changes_prototype :: "jsval \<Rightarrow> bool" where
  \<comment> \<open>the setter of \<open>__proto__\<close> takes an object (a function is one) or \<open>null\<close>\<close>
  "changes_prototype v = (is_object v \<or> is_function v \<or> v = VNull)"

text \<open>
  A property write \<open>cur[p] = v\<close>. The source is a module, so it runs in strict mode,
  where a write on a primitive raises a \<open>TypeError\<close>. A function can take a property,
  but the parser never writes on one, and the model does not follow such a write. On an
  array, \<open>length\<close> has the setter of arrays: it takes a value that converts to an integer
  below \<open>2^32\<close> and cuts or extends the array, and raises a \<open>RangeError\<close> on any other
  value. When \<open>cur\<close> has no own property \<open>p\<close>, the prototype chain can hold an accessor
  for \<open>p\<close>: the setter of \<open>__proto__\<close> ignores a value that is neither an object nor
  \<open>null\<close>, so that nothing is stored, and replaces the prototype of \<open>cur\<close> otherwise; an
  accessor of a \<open>File\<close> has no setter, and the write raises a \<open>TypeError\<close>. Every other
  write stores an own property, also when \<open>cur\<close> inherits a method of that name. The
  limits of an engine on the size of an array are not modelled.
\<close>

definition set_prop :: "engine \<Rightarrow> jsval \<Rightarrow> string \<Rightarrow> jsval \<Rightarrow> error + jsval" where
  \<comment> \<open>\<open>cur[p] = v\<close>, returning the object after the write\<close>
  "set_prop rt cur p v =
     (if \<not> is_object cur then Inl (if is_function cur then OutsideModel else TypeError)
      else if isArray cur \<and> p = ''length'' then
        (case ToArrayLength rt v of
           None \<Rightarrow> Inl RangeError
         | Some n \<Rightarrow> Inr (resize cur n))
      else if own_value cur p = None \<and> p = ''__proto__'' then
        (if changes_prototype v then Inl OutsideModel else Inr cur)
      else if own_value cur p = None \<and> accessor_value rt cur p \<noteq> None then Inl TypeError
      else Inr (store cur p v))"

subsection \<open>The deep-path assignor\<close>

fun get_path :: "engine \<Rightarrow> jsval \<Rightarrow> string list \<Rightarrow> error + jsval" where
  "get_path rt cur [] = Inr cur"
| "get_path rt cur (p # ps) =
     (if \<not> is_object cur then Inr VUndefined
      else (case get_prop rt cur p of
              Inl e \<Rightarrow> Inl e
            | Inr c \<Rightarrow> get_path rt c ps))"

definition getDeep :: "engine \<Rightarrow> jsval \<Rightarrow> string \<Rightarrow> error + jsval" where
  "getDeep rt obj path = get_path rt obj (segments path)"

text \<open>
  \<open>setDeep\<close> mutates the nodes it walks through. The model returns the tree after the
  writes: once the walk below the property \<open>p\<close> is done, the child is put back in the slot
  \<open>p\<close>, where it was read from.
\<close>

fun set_path :: "engine \<Rightarrow> jsval \<Rightarrow> string list \<Rightarrow> jsval \<Rightarrow> error + jsval" where
  "set_path rt cur [] v = Inr cur"
| "set_path rt cur [p] v = set_prop rt cur p v"
| "set_path rt cur (p # q # ps) v =
     (case get_prop rt cur p of
        Inl e \<Rightarrow> Inl e
      | Inr c \<Rightarrow>
          (case (if \<not> is_object c then set_prop rt cur p (VObj []) else Inr cur) of
             Inl e \<Rightarrow> Inl e
           | Inr cur1 \<Rightarrow>
               (case get_prop rt cur1 p of
                  Inl e \<Rightarrow> Inl e
                | Inr c1 \<Rightarrow>
                    (case set_path rt c1 (q # ps) v of
                       Inl e \<Rightarrow> Inl e
                     | Inr child \<Rightarrow> Inr (store cur1 p child)))))"

definition setDeep :: "engine \<Rightarrow> jsval \<Rightarrow> string \<Rightarrow> jsval \<Rightarrow> error + jsval" where
  "setDeep rt obj path v = set_path rt obj (segments path) v"

section \<open>The parser\<close>

record ParseOptions =
  ignoreEmpty :: bool
  strict :: bool
  defaultArraySeparator :: string

definition DEFAULT_OPTIONS :: ParseOptions where
  "DEFAULT_OPTIONS = \<lparr>ignoreEmpty = False, strict = False, defaultArraySeparator = '',''\<rparr>"

subsection \<open>Casting\<close>

definition isEmptyValue :: "jsval \<Rightarrow> bool" where
  "isEmptyValue v = (v = VStr [] \<or> v = VNull \<or> v = VUndefined)"

definition splitArrayValue :: "string \<Rightarrow> string \<Rightarrow> string list" where
  "splitArrayValue value sep =
     (if trim value = [] then []
      else filter (\<lambda>x. 0 < length x) (map trim (js_split sep value)))"

definition parseBoolean :: "string \<Rightarrow> bool option" where
  "parseBoolean value =
     (let v = toLowerCase (trim value)
      in if v \<in> set [''true'', ''1'', ''yes'', ''on''] then Some True
         else if v \<in> set [''false'', ''0'', ''no'', ''off''] then Some False
         else None)"

definition isPlainObject :: "jsval \<Rightarrow> bool" where
  \<comment> \<open>not \<open>null\<close>, \<open>typeof\<close> object, no array, no \<open>Date\<close>: a \<open>File\<close> passes\<close>
  "isPlainObject v = (v \<noteq> VNull \<and> is_object v \<and> \<not> isArray v
                      \<and> \<not> (case v of VDate _ _ \<Rightarrow> True | _ \<Rightarrow> False))"

definition castValue ::
  "engine \<Rightarrow> string \<Rightarrow> string \<Rightarrow> ParseOptions \<Rightarrow> string option \<Rightarrow> error + jsval" where
  "castValue rt type raw opts arraySeparator =
     (let value = raw
      in if type = ''string'' then Inr (VStr value)
         else if type = ''number'' then
           (let n = js_Number rt value
            in if \<not> isFinite n
               then (if strict opts then Inl (InvalidNumber value) else Inr (VStr value))
               else Inr (VNum n))
         else if type = ''boolean'' then
           (case parseBoolean value of
              None \<Rightarrow> if strict opts then Inl (InvalidBoolean value) else Inr (VStr value)
            | Some b \<Rightarrow> Inr (VBool b))
         else if type = ''date'' then
           (case date_parse rt value of
              None \<Rightarrow> if strict opts then Inl (InvalidDate value) else Inr (VStr value)
            | Some t \<Rightarrow> Inr (VDate t []))
         else if type = ''json'' then
           (case json_parse rt value of
              None \<Rightarrow> if strict opts then Inl (InvalidJSON value) else Inr (VStr value)
            | Some v \<Rightarrow> Inr v)
         else if type = ''array'' then
           (let sep = (case arraySeparator of Some s \<Rightarrow> s | None \<Rightarrow> defaultArraySeparator opts)
            in Inr (VArr (map VStr (splitArrayValue value sep)) []))
         else Inr (VStr value))"

subsection \<open>Multi-values\<close>

definition spread :: "jsval \<Rightarrow> jsval list" where
  \<comment> \<open>\<open>...xs\<close>, which the parser applies to arrays only\<close>
  "spread v = (case v of VArr elems props \<Rightarrow> elems | _ \<Rightarrow> [])"

definition assignField ::
  "engine \<Rightarrow> jsval \<Rightarrow> string \<Rightarrow> string \<Rightarrow> jsval \<Rightarrow> error + jsval" where
  \<comment> \<open>the multi-value part of the loop body, for a value that was cast\<close>
  "assignField rt out type key parsed =
     (if type = ''array'' then
        (case getDeep rt out key of
           Inl e \<Rightarrow> Inl e
         | Inr existing \<Rightarrow>
             if isArray existing then setDeep rt out key (VArr (spread existing @ spread parsed) [])
             else if existing \<noteq> VUndefined then setDeep rt out key (VArr (existing # spread parsed) [])
             else setDeep rt out key parsed)
      else
        (case getDeep rt out key of
           Inl e \<Rightarrow> Inl e
         | Inr existing \<Rightarrow>
             if existing = VUndefined then setDeep rt out key parsed
             else if isArray existing then setDeep rt out key (VArr (spread existing @ [parsed]) [])
             else setDeep rt out key (VArr [existing, parsed] [])))"

subsection \<open>Field names\<close>

record ParsedFieldName =
  type :: string
  key :: string
  arraySeparator :: "string option"

definition match_type_token :: "string \<Rightarrow> (string \<times> string option) option" where
  \<comment> \<open>\<open>left.match(/^([a-z]+)(\((.*)\))?$/i)\<close>: the groups 1 and 3 of a match\<close>
  "match_type_token left =
     (let m1 = takeWhile is_letter left; rest = dropWhile is_letter left
      in if m1 = [] then None
         else if rest = [] then Some (m1, None)
         else if 2 \<le> length rest \<and> hd rest = CHR ''('' \<and> last rest = CHR '')''
                 \<and> \<not> list_ex is_line_terminator (butlast (tl rest))
              then Some (m1, Some (butlast (tl rest)))
              else None)"

definition parseFieldName :: "string \<Rightarrow> ParsedFieldName" where
  "parseFieldName raw =
     (let typeSplit = js_split ''::'' raw
      in if length typeSplit = 1 then \<lparr>type = ''string'', key = raw, arraySeparator = None\<rparr>
         else
           let left = hd typeSplit; key = join ''::'' (tl typeSplit)
           in (case match_type_token left of
                 None \<Rightarrow> \<lparr>type = ''string'', key = raw, arraySeparator = None\<rparr>
               | Some (m1, opt) \<Rightarrow>
                   let type = toLowerCase (if m1 = [] then ''string'' else m1)
                   in if type = ''array''
                      then \<lparr>type = type, key = key, arraySeparator = opt\<rparr>
                      else \<lparr>type = type, key = key, arraySeparator = None\<rparr>))"

subsection \<open>List entries\<close>

text \<open>
  An input value is a string, a \<open>File\<close> or nullish; \<open>String(rawVal ?? "")\<close> turns it into
  a string.
\<close>

datatype rawval = RawString string | RawFile nat | RawNullish

text \<open>The field \<open>val\<close> is the field \<open>value\<close> of the source.\<close>

record ListEntry =
  variant :: string
  name :: string
  index :: string
  val :: string

definition js_String :: "rawval \<Rightarrow> string" where
  "js_String rawVal =
     (case rawVal of RawString s \<Rightarrow> s | RawFile h \<Rightarrow> ''[object File]'' | RawNullish \<Rightarrow> [])"

definition parseListEntry ::
  "string \<Rightarrow> rawval \<Rightarrow> ParseOptions \<Rightarrow> error + ListEntry option" where
  "parseListEntry rawName rawValue opts =
     (let parts = js_split ''::'' rawName
      in if length parts < 4
         then (if strict opts then Inl (InvalidListField rawName) else Inr None)
         else
           let variant = toLowerCase (parts ! 1)
           in if variant \<noteq> ''key'' \<and> variant \<noteq> ''value''
              then (if strict opts then Inl (InvalidListField rawName) else Inr None)
              else
                let index = last parts; name = join ''::'' (butlast (drop 2 parts))
                in if name = [] \<or> index = []
                   then (if strict opts then Inl (InvalidListField rawName) else Inr None)
                   else Inr (Some \<lparr>variant = variant, name = name, index = index,
                                    val = js_String rawValue\<rparr>))"

definition lookup_key :: "ListEntry \<Rightarrow> string" where
  \<comment> \<open>the template \<open>name::index\<close>\<close>
  "lookup_key e = name e @ ''::'' @ index e"

definition build_valueMap :: "ListEntry list \<Rightarrow> (string \<rightharpoonup> string)" where
  "build_valueMap values = foldl (\<lambda>m e. m(lookup_key e \<mapsto> val e)) Map.empty values"

text \<open>
  The body of the loop over the key entries writes a property on the container that
  \<open>getDeep\<close> returned, which is a node of the tree: \<open>update_at\<close> is that write on the
  node at the end of the path, with every node above it put back in its slot.
\<close>

fun update_at ::
  "engine \<Rightarrow> jsval \<Rightarrow> string list \<Rightarrow> (jsval \<Rightarrow> error + jsval) \<Rightarrow> error + jsval" where
  "update_at rt cur [] f = f cur"
| "update_at rt cur (p # ps) f =
     (case get_prop rt cur p of
        Inl e \<Rightarrow> Inl e
      | Inr c \<Rightarrow>
          (case update_at rt c ps f of
             Inl e \<Rightarrow> Inl e
           | Inr child \<Rightarrow> Inr (store cur p child)))"

definition applyKeyEntry ::
  "engine \<Rightarrow> (string \<rightharpoonup> string) \<Rightarrow> jsval \<Rightarrow> ListEntry \<Rightarrow> error + jsval" where
  "applyKeyEntry rt valueMap target keyEntry =
     (if trim (val keyEntry) = [] then Inr target
      else
        let matchedValue = (case valueMap (lookup_key keyEntry) of Some v \<Rightarrow> v | None \<Rightarrow> []);
            write_key = (\<lambda>target1. update_at rt target1 (segments (name keyEntry))
                          (\<lambda>container. set_prop rt container (val keyEntry) (VStr matchedValue)))
        in (case getDeep rt target (name keyEntry) of
              Inl e \<Rightarrow> Inl e
            | Inr container \<Rightarrow>
                if isPlainObject container then write_key target
                else
                  (case setDeep rt target (name keyEntry) (VObj []) of
                     Inl e \<Rightarrow> Inl e
                   | Inr target1 \<Rightarrow>
                       (case getDeep rt target1 (name keyEntry) of
                          Inl e \<Rightarrow> Inl e
                        | Inr container1 \<Rightarrow>
                            if isPlainObject container1 then write_key target1 else Inr target1))))"

fun applyKeyEntries ::
  "engine \<Rightarrow> (string \<rightharpoonup> string) \<Rightarrow> jsval \<Rightarrow> ListEntry list \<Rightarrow> error + jsval" where
  "applyKeyEntries rt valueMap target [] = Inr target"
| "applyKeyEntries rt valueMap target (keyEntry # rest) =
     (case applyKeyEntry rt valueMap target keyEntry of
        Inl e \<Rightarrow> Inl e
      | Inr target1 \<Rightarrow> applyKeyEntries rt valueMap target1 rest)"

definition applyListEntries :: "engine \<Rightarrow> ListEntry list \<Rightarrow> jsval \<Rightarrow> error + jsval" where
  "applyListEntries rt entries target =
     (if length entries = 0 then Inr target
      else
        let keys = filter (\<lambda>entry. variant entry = ''key'') entries;
            values = filter (\<lambda>entry. variant entry = ''value'') entries;
            valueMap = build_valueMap values
        in applyKeyEntries rt valueMap target keys)"

subsection \<open>The orchestrator\<close>

definition step ::
  "engine \<Rightarrow> ParseOptions \<Rightarrow> jsval \<times> ListEntry list \<Rightarrow> string \<times> rawval
     \<Rightarrow> error + jsval \<times> ListEntry list" where
  \<comment> \<open>one turn of the loop over the entries, on the pair of \<open>out\<close> and \<open>listEntries\<close>\<close>
  "step rt opts st entry =
     (let out = fst st; listEntries = snd st; rawName = fst entry; rawVal = snd entry;
          pf = parseFieldName rawName
      in if type pf = ''list'' then
           (case parseListEntry rawName rawVal opts of
              Inl e \<Rightarrow> Inl e
            | Inr None \<Rightarrow> Inr (out, listEntries)
            | Inr (Some parsed) \<Rightarrow> Inr (out, listEntries @ [parsed]))
         else
           (case rawVal of
              RawFile h \<Rightarrow>
                (case setDeep rt out (key pf) (VFile h []) of
                   Inl e \<Rightarrow> Inl e
                 | Inr out1 \<Rightarrow> Inr (out1, listEntries))
            | _ \<Rightarrow>
                let rawString = js_String rawVal
                in if ignoreEmpty opts \<and> trim rawString = [] then Inr (out, listEntries)
                   else
                     (case castValue rt (type pf) rawString opts (arraySeparator pf) of
                        Inl e \<Rightarrow> Inl e
                      | Inr parsed \<Rightarrow>
                          (case assignField rt out (type pf) (key pf) parsed of
                             Inl e \<Rightarrow> Inl e
                           | Inr out1 \<Rightarrow> Inr (out1, listEntries)))))"

fun consume ::
  "engine \<Rightarrow> ParseOptions \<Rightarrow> jsval \<times> ListEntry list \<Rightarrow> (string \<times> rawval) list
     \<Rightarrow> error + jsval \<times> ListEntry list" where
  "consume rt opts st [] = Inr st"
| "consume rt opts st (entry # entries) =
     (case step rt opts st entry of
        Inl e \<Rightarrow> Inl e
      | Inr st1 \<Rightarrow> consume rt opts st1 entries)"

fun clean :: "jsval \<Rightarrow> jsval" where
  "clean (VArr elems props) = VArr (filter (\<lambda>x. \<not> isEmptyValue x) elems) []"
| "clean (VObj props) = VObj (map (\<lambda>kv. (fst kv, clean (snd kv))) props)"
| "clean (VDate t props) = VDate t (map (\<lambda>kv. (fst kv, clean (snd kv))) props)"
| "clean (VFile h props) = VFile h (map (\<lambda>kv. (fst kv, clean (snd kv))) props)"
| "clean v = v"

definition parseTypedFormData ::
  "engine \<Rightarrow> (string \<times> rawval) list \<Rightarrow> ParseOptions \<Rightarrow> error + jsval" where
  \<comment> \<open>on the entries of the input, in their order, and the options merged with the defaults\<close>
  "parseTypedFormData rt entries opts =
     (case consume rt opts (VObj [], []) entries of
        Inl e \<Rightarrow> Inl e
      | Inr st \<Rightarrow>
          (case applyListEntries rt (snd st) (fst st) of
             Inl e \<Rightarrow> Inl e
           | Inr out \<Rightarrow> Inr (if ignoreEmpty opts then clean out else out)))"

section \<open>Predicates of the statements\<close>

text \<open>
  \<open>ordinary_slot rt cur p\<close>: a write \<open>cur[p] = v\<close> is an ordinary property write, one that
  stores \<open>v\<close> as an own property of \<open>cur\<close> whatever \<open>v\<close> is. The slots that are not
  ordinary are those where the engine decides: the \<open>length\<close> of an array and, on an object
  that has no own property of that name, \<open>__proto__\<close> and the getter-only accessors of a
  \<open>File\<close>.
\<close>

definition ordinary_slot :: "engine \<Rightarrow> jsval \<Rightarrow> string \<Rightarrow> bool" where
  "ordinary_slot rt cur p =
     (is_object cur \<and> \<not> (isArray cur \<and> p = ''length'')
      \<and> (own_value cur p \<noteq> None \<or> (p \<noteq> ''__proto__'' \<and> accessor_value rt cur p = None)))"

text \<open>
  \<open>descend node\<close> is the node in which the walk of \<open>setDeep\<close> goes on below an
  intermediate segment that holds \<open>node\<close>: the node itself when it is an object (a mapping,
  an array, a date, a \<open>File\<close>), and a new empty mapping when the segment is missing or holds
  \<open>null\<close>, a scalar or a function.
\<close>

definition descend :: "jsval \<Rightarrow> jsval" where
  "descend node = (if is_object node then node else VObj [])"

text \<open>
  \<open>ordinary_walk rt cur ps\<close>: every slot that the walk of \<open>setDeep\<close> along \<open>ps\<close> from
  \<open>cur\<close> comes to, the last one and those on the way, is an ordinary slot.
\<close>

fun ordinary_walk :: "engine \<Rightarrow> jsval \<Rightarrow> string list \<Rightarrow> bool" where
  "ordinary_walk rt cur [] = True"
| "ordinary_walk rt cur [p] = ordinary_slot rt cur p"
| "ordinary_walk rt cur (p # q # ps) =
     (ordinary_slot rt cur p
      \<and> (case get_prop rt cur p of
            Inl e \<Rightarrow> False
          | Inr c \<Rightarrow> ordinary_walk rt (descend c) (q # ps)))"

text \<open>
  \<open>shell node\<close> is what a node is apart from its properties: a mapping, an array, the
  date of a given time or a given \<open>File\<close>.
\<close>

definition shell :: "jsval \<Rightarrow> jsval" where
  "shell node =
     (case node of
        VObj props \<Rightarrow> VObj []
      | VArr elems props \<Rightarrow> VArr [] []
      | VDate t props \<Rightarrow> VDate t []
      | VFile h props \<Rightarrow> VFile h []
      | _ \<Rightarrow> node)"



text \<open>
  The failure conditions of the casts, and the error that \<open>castValue\<close> raises for each
  type under \<open>strict\<close>. \<open>reaches_cast opts nm rawVal\<close>: the entry is one that the loop
  casts, no list entry, no \<open>File\<close>, and not skipped as blank under \<open>ignoreEmpty\<close>.
  \<open>parser_error e\<close>: \<open>e\<close> is one of the errors that the parser itself throws.
\<close>

definition cast_fails :: "engine \<Rightarrow> string \<Rightarrow> string \<Rightarrow> bool" where
  "cast_fails rt ty raw =
     ((ty = ''number'' \<and> \<not> isFinite (js_Number rt raw))
      \<or> (ty = ''boolean'' \<and> parseBoolean raw = None)
      \<or> (ty = ''date'' \<and> date_parse rt raw = None)
      \<or> (ty = ''json'' \<and> json_parse rt raw = None))"

definition cast_error :: "string \<Rightarrow> string \<Rightarrow> error" where
  "cast_error ty raw =
     (if ty = ''number'' then InvalidNumber raw
      else if ty = ''boolean'' then InvalidBoolean raw
      else if ty = ''date'' then InvalidDate raw
      else InvalidJSON raw)"

definition reaches_cast :: "ParseOptions \<Rightarrow> string \<Rightarrow> rawval \<Rightarrow> bool" where
  "reaches_cast opts nm rawVal =
     (type (parseFieldName nm) \<noteq> ''list''
      \<and> (case rawVal of RawFile h \<Rightarrow> False | _ \<Rightarrow> True)
      \<and> \<not> (ignoreEmpty opts \<and> trim (js_String rawVal) = []))"

definition parser_error :: "error \<Rightarrow> bool" where
  "parser_error e =
     (case e of
        InvalidListField s \<Rightarrow> True
      | InvalidNumber s \<Rightarrow> True
      | InvalidBoolean s \<Rightarrow> True
      | InvalidDate s \<Rightarrow> True
      | InvalidJSON s \<Rightarrow> True
      | _ \<Rightarrow> False)"

text \<open>
  The names that \<open>parseListEntry\<close> refuses: fewer than 4 segments, a variant that is
  neither \<open>key\<close> nor \<open>value\<close>, an empty group name or an empty index.
\<close>

definition invalid_list_name :: "string \<Rightarrow> bool" where
  "invalid_list_name rawName =
     (let parts = js_split ''::'' rawName
      in length parts < 4
         \<or> (toLowerCase (parts ! 1) \<noteq> ''key'' \<and> toLowerCase (parts ! 1) \<noteq> ''value'')
         \<or> join ''::'' (butlast (drop 2 parts)) = []
         \<or> last parts = [])"

section \<open>An engine for the examples\<close>

text \<open>
  The theorems below hold for every engine. Where an example needs one, it takes this
  engine. It reads an unsigned decimal integer as a number and nothing else. Every object
  inherits the methods of \<open>Object.prototype\<close>, and a \<open>File\<close> has the accessors \<open>name\<close>,
  \<open>type\<close>, \<open>size\<close> and \<open>lastModified\<close>. The examples run it on inputs where ECMAScript and
  the \<open>File\<close> interface give the same result.
\<close>

definition digits_engine :: engine where
  "digits_engine =
     \<lparr>numeric_literal = (\<lambda>s. if list_all is_digit s then Fin (of_nat (dec_value s)) else NaN),
      date_parse = (\<lambda>s. None),
      json_parse = (\<lambda>s. None),
      prototype_method = (\<lambda>k p. p \<in> set [''constructor'', ''hasOwnProperty'', ''isPrototypeOf'',
                                   ''propertyIsEnumerable'', ''toLocaleString'', ''toString'',
                                   ''valueOf'']),
      file_accessor = (\<lambda>h p. if p = ''name'' then Some (Inl ''upload.bin'')
                              else if p = ''type'' then Some (Inl [])
                              else if p = ''size'' then Some (Inr (Fin 0))
                              else if p = ''lastModified'' then Some (Inr (Fin 0))
                              else None)\<rparr>"

section \<open>Evaluation\<close>

named_theorems ev \<open>the definitions, to run the model on a concrete input\<close>

lemmas [ev] = is_ws_def trim_def lower_char_def toLowerCase_def is_letter_def
  is_line_terminator_def split_nonempty.simps js_split_def segments_def isFinite_def
  js_Number_def is_object_def isArray_def is_digit_def dec_value_def array_index_def
  kind_of_def own_value_def accessor_value_def inherited_def get_prop_def ToArrayLength_def
  store_def resize_def is_function_def changes_prototype_def
  set_prop_def getDeep_def setDeep_def
  DEFAULT_OPTIONS_def isEmptyValue_def splitArrayValue_def parseBoolean_def isPlainObject_def
  castValue_def spread_def assignField_def match_type_token_def parseFieldName_def
  js_String_def parseListEntry_def lookup_key_def build_valueMap_def applyKeyEntry_def
  applyListEntries_def step_def parseTypedFormData_def digits_engine_def Let_def

section \<open>Blank strings\<close>

lemma dropWhile_all: "list_all P s \<Longrightarrow> dropWhile P s = []"
  by (induction s) auto

lemma trim_blank: "list_all is_ws s \<Longrightarrow> trim s = []"
  by (simp add: trim_def dropWhile_all)

lemma trim_empty_iff: "trim s = [] \<longleftrightarrow> list_all is_ws s"
proof
  assume "trim s = []"
  then have all: "\<forall>x\<in>set (dropWhile is_ws s). is_ws x"
    by (simp add: trim_def dropWhile_eq_Nil_conv)
  have "dropWhile is_ws s = []"
  proof (rule ccontr)
    assume ne: "dropWhile is_ws s \<noteq> []"
    then have "\<not> is_ws (hd (dropWhile is_ws s))" by (rule hd_dropWhile)
    moreover from ne have "hd (dropWhile is_ws s) \<in> set (dropWhile is_ws s)" by simp
    ultimately show False using all by blast
  qed
  then show "list_all is_ws s"
    by (simp add: dropWhile_eq_Nil_conv list_all_iff)
next
  assume "list_all is_ws s"
  then show "trim s = []" by (rule trim_blank)
qed

section \<open>Array indices\<close>

lemma dec_value_snoc: "dec_value (s @ [c]) = 10 * dec_value s + (of_char c - 48)"
  by (simp add: dec_value_def)

lemma digit_value: "is_digit c \<Longrightarrow> (of_char c :: nat) - 48 < 10"
  by (auto simp: is_digit_def)

lemma digit_eq: "is_digit c \<Longrightarrow> is_digit d \<Longrightarrow> (of_char c :: nat) - 48 = of_char d - 48 \<Longrightarrow> c = d"
proof -
  assume c: "is_digit c" and d: "is_digit d" and eq: "(of_char c :: nat) - 48 = of_char d - 48"
  from c d have "48 \<le> (of_char c :: nat)" and "48 \<le> (of_char d :: nat)"
    by (simp_all add: is_digit_def)
  with eq have "(of_char c :: nat) = of_char d" by arith
  then show "c = d" by simp
qed

lemma dec_value_upper: "list_all is_digit s \<Longrightarrow> dec_value s < 10 ^ length s"
proof (induction s rule: rev_induct)
  case Nil
  then show ?case by (simp add: dec_value_def)
next
  case (snoc c s)
  then have "dec_value s < 10 ^ length s" and "(of_char c :: nat) - 48 < 10"
    by (simp_all add: digit_value)
  then have "10 * dec_value s + (of_char c - 48) < 10 * 10 ^ length s" by arith
  then show ?case by (simp add: dec_value_snoc)
qed

lemma dec_value_lower:
  "list_all is_digit s \<Longrightarrow> s \<noteq> [] \<Longrightarrow> hd s \<noteq> CHR ''0'' \<Longrightarrow> 10 ^ (length s - 1) \<le> dec_value s"
proof (induction s rule: rev_induct)
  case Nil
  then show ?case by simp
next
  case (snoc c s)
  show ?case
  proof (cases "s = []")
    case True
    from snoc.prems have "is_digit c" and "c \<noteq> CHR ''0''" using True by simp_all
    have zero: "(of_char (CHR ''0'') :: nat) = 48" by simp
    have "(of_char c :: nat) \<noteq> 48"
    proof
      assume "(of_char c :: nat) = 48"
      with zero have "(of_char c :: nat) = of_char (CHR ''0'')" by simp
      then have "c = CHR ''0''" by (simp only: of_char_eq_iff)
      with \<open>c \<noteq> CHR ''0''\<close> show False by simp
    qed
    moreover from \<open>is_digit c\<close> have "48 \<le> (of_char c :: nat)" by (simp add: is_digit_def)
    ultimately have "1 \<le> (of_char c :: nat) - 48" by arith
    with True show ?thesis by (simp add: dec_value_def)
  next
    case False
    with snoc.prems have "list_all is_digit s" and "hd s \<noteq> CHR ''0''" by simp_all
    with snoc.IH False have "10 ^ (length s - 1) \<le> dec_value s" by simp
    then have "10 * 10 ^ (length s - 1) \<le> 10 * dec_value s + (of_char c - 48)" by arith
    moreover from False have "10 * (10::nat) ^ (length s - 1) = 10 ^ length s"
      by (cases s) simp_all
    ultimately show ?thesis by (simp add: dec_value_snoc)
  qed
qed

lemma dec_value_inj:
  "list_all is_digit s \<Longrightarrow> list_all is_digit t \<Longrightarrow> length s = length t
     \<Longrightarrow> dec_value s = dec_value t \<Longrightarrow> s = t"
proof (induction s arbitrary: t rule: rev_induct)
  case Nil
  then show ?case by simp
next
  case (snoc c s)
  from snoc.prems(3) obtain d t' where t: "t = t' @ [d]"
    by (cases t rule: rev_cases) simp_all
  from snoc.prems t have dc: "is_digit c" and dd: "is_digit d"
    and ds: "list_all is_digit s" and dt: "list_all is_digit t'" and len: "length s = length t'"
    by simp_all
  from snoc.prems(4) t
  have eq: "10 * dec_value s + (of_char c - 48) = 10 * dec_value t' + (of_char d - 48)"
    by (simp add: dec_value_snoc)
  from digit_value [OF dc] digit_value [OF dd] eq
  have "dec_value s = dec_value t'" and "(of_char c :: nat) - 48 = of_char d - 48" by arith+
  with snoc.IH [OF ds dt len] digit_eq [OF dc dd] t show ?case by simp
qed

lemma array_index_inj: "array_index p = Some i \<Longrightarrow> array_index q = Some i \<Longrightarrow> p = q"
proof -
  assume p: "array_index p = Some i" and q: "array_index q = Some i"
  from p have dp: "list_all is_digit p" and np: "p \<noteq> []"
    and cp: "length p = 1 \<or> hd p \<noteq> CHR ''0''" and vp: "dec_value p = i"
    by (auto simp: array_index_def split: if_splits)
  from q have dq: "list_all is_digit q" and nq: "q \<noteq> []"
    and cq: "length q = 1 \<or> hd q \<noteq> CHR ''0''" and vq: "dec_value q = i"
    by (auto simp: array_index_def split: if_splits)
  have short: False
    if ds: "list_all is_digit s" and dt: "list_all is_digit t" and "s \<noteq> []"
      and ct: "length t = 1 \<or> hd t \<noteq> CHR ''0''" and lt: "length s < length t"
      and eq: "dec_value s = dec_value t" for s t
  proof -
    from lt that(3) have "1 < length t" by (cases s) auto
    with ct have h: "hd t \<noteq> CHR ''0''" and n: "t \<noteq> []" by auto
    from dec_value_lower [OF dt n h] have "10 ^ (length t - 1) \<le> dec_value t" .
    moreover from ds have "dec_value s < 10 ^ length s" by (rule dec_value_upper)
    moreover from lt have "(10::nat) ^ length s \<le> 10 ^ (length t - 1)"
      by (intro power_increasing) simp_all
    ultimately show False using eq by linarith
  qed
  have "length p = length q"
  proof (rule ccontr)
    assume "length p \<noteq> length q"
    then consider "length p < length q" | "length q < length p" by arith
    then show False
    proof cases
      case 1
      from short [OF dp dq np cq 1] vp vq show False by simp
    next
      case 2
      from short [OF dq dp nq cp 2] vp vq show False by simp
    qed
  qed
  with dp dq vp vq show "p = q" by (simp add: dec_value_inj)
qed

section \<open>Property reads and writes\<close>

lemma store_is_object: "is_object (store cur p v) = is_object cur"
  by (cases cur) (auto simp: store_def is_object_def split: option.splits)

lemma store_isArray: "isArray (store cur p v) = isArray cur"
  by (cases cur) (auto simp: store_def isArray_def split: option.splits)

lemma store_shell: "shell (store cur p v) = shell cur"
  by (cases cur) (auto simp: store_def shell_def split: option.splits)

lemma store_plain: "isPlainObject (store cur p v) = isPlainObject cur"
  by (cases cur) (auto simp: store_def isPlainObject_def is_object_def isArray_def split: option.splits)

lemma own_store_same:
  "is_object cur \<Longrightarrow> \<not> (isArray cur \<and> p = ''length'') \<Longrightarrow> own_value (store cur p v) p = Some v"
  by (cases cur)
     (auto simp: store_def own_value_def is_object_def isArray_def update_conv' nth_append
           split: option.splits)

lemma own_store_other:
  assumes "q \<noteq> p" and "\<not> (isArray cur \<and> q = ''length'')"
  shows "own_value (store cur p v) q = own_value cur q"
proof (cases cur)
  case (VArr elems props)
  with assms(2) have ql: "q \<noteq> ''length''" by (simp add: isArray_def)
  show ?thesis
  proof (cases "array_index p")
    case None
    with VArr assms(1) ql show ?thesis
      by (auto simp: store_def own_value_def update_conv' split: option.splits)
  next
    case (Some i)
    show ?thesis
    proof (cases "array_index q")
      case None
      with VArr Some ql show ?thesis by (simp add: store_def own_value_def)
    next
      case (Some j)
      with \<open>array_index p = Some i\<close> assms(1) have "i \<noteq> j"
        using array_index_inj by blast
      with VArr Some \<open>array_index p = Some i\<close> ql show ?thesis
        by (auto simp: store_def own_value_def nth_append nth_Cons')
    qed
  qed
qed (use assms in \<open>auto simp: store_def own_value_def update_conv'\<close>)

lemma inherited_store: "inherited rt (store cur p v) q = inherited rt cur q"
  by (cases cur)
     (auto simp: store_def inherited_def accessor_value_def kind_of_def split: option.splits)

lemma get_store_same:
  "is_object cur \<Longrightarrow> \<not> (isArray cur \<and> p = ''length'') \<Longrightarrow> get_prop rt (store cur p v) p = Inr v"
  by (simp add: get_prop_def store_is_object own_store_same)

lemma get_store_other:
  "q \<noteq> p \<Longrightarrow> \<not> (isArray cur \<and> q = ''length'')
     \<Longrightarrow> get_prop rt (store cur p v) q = get_prop rt cur q"
  by (simp add: get_prop_def store_is_object own_store_other inherited_store split: option.splits)

lemma inherited_not_object: "inherited rt cur p = Inr c \<Longrightarrow> \<not> is_object c"
  by (auto simp: inherited_def accessor_value_def is_object_def
           split: if_splits option.splits jsval.splits sum.splits)

lemma get_prop_is_object: "get_prop rt cur p = Inr c \<Longrightarrow> is_object cur"
  by (auto simp: get_prop_def split: if_splits)

lemma get_prop_object_own:
  "get_prop rt cur p = Inr c \<Longrightarrow> is_object c \<Longrightarrow> own_value cur p = Some c"
  by (auto simp: get_prop_def inherited_not_object split: if_splits option.splits)

lemma own_length_not_object:
  "isArray cur \<Longrightarrow> own_value cur ''length'' = Some c \<Longrightarrow> \<not> is_object c"
  by (cases cur) (auto simp: own_value_def isArray_def is_object_def)

lemma get_own: "is_object cur \<Longrightarrow> own_value cur p = Some c \<Longrightarrow> get_prop rt cur p = Inr c"
  by (simp add: get_prop_def)

lemma resize_is_object: "is_object (resize cur n) = is_object cur"
  by (cases cur) (auto simp: resize_def is_object_def)

lemma set_prop_is_object:
  "set_prop rt cur p v = Inr cur' \<Longrightarrow> is_object cur \<and> is_object cur'"
  by (auto simp: set_prop_def store_is_object resize_is_object split: if_splits option.splits)

lemma set_prop_ordinary: "ordinary_slot rt cur p \<Longrightarrow> set_prop rt cur p v = Inr (store cur p v)"
  by (auto simp: ordinary_slot_def set_prop_def)

lemma set_prop_settled:
  "set_prop rt cur p v = Inr cur' \<Longrightarrow> ToArrayLength rt v = None \<Longrightarrow> changes_prototype v
     \<Longrightarrow> ordinary_slot rt cur p"
  by (auto simp: ordinary_slot_def set_prop_def split: if_splits option.splits)

lemma ordinary_get: "ordinary_slot rt cur p \<Longrightarrow> \<exists>c. get_prop rt cur p = Inr c"
  by (auto simp: ordinary_slot_def get_prop_def inherited_def split: option.splits)

lemma fresh_settles: "ToArrayLength rt (VObj props) = None \<and> changes_prototype (VObj props)"
  by (simp add: ToArrayLength_def changes_prototype_def is_object_def)

lemma descend_is_object: "is_object (descend c)"
  by (simp add: descend_def is_object_def)

lemma object_ordinary:
  "get_prop rt cur p = Inr c \<Longrightarrow> is_object c \<Longrightarrow> ordinary_slot rt cur p"
proof -
  assume g: "get_prop rt cur p = Inr c" and c: "is_object c"
  from g c have own: "own_value cur p = Some c" by (rule get_prop_object_own)
  from g have "is_object cur" by (rule get_prop_is_object)
  moreover from own c have "\<not> (isArray cur \<and> p = ''length'')"
    using own_length_not_object by blast
  ultimately show ?thesis using own by (simp add: ordinary_slot_def)
qed

text \<open>
  The first step of the walk at an intermediate segment: the slot is an ordinary one, and
  after the step it holds the node in which the walk goes on.
\<close>

lemma first_step:
  assumes g: "get_prop rt cur p = Inr c"
    and f: "(if \<not> is_object c then set_prop rt cur p (VObj []) else Inr cur) = Inr cur1"
  shows "ordinary_slot rt cur p"
    and "cur1 = (if is_object c then cur else store cur p (VObj []))"
    and "get_prop rt cur1 p = Inr (descend c)"
proof -
  show o: "ordinary_slot rt cur p"
  proof (cases "is_object c")
    case True
    with g show ?thesis by (simp add: object_ordinary)
  next
    case False
    with f have "set_prop rt cur p (VObj []) = Inr cur1" by simp
    then show ?thesis using fresh_settles set_prop_settled by blast
  qed
  from f o show c1: "cur1 = (if is_object c then cur else store cur p (VObj []))"
    by (auto simp: set_prop_ordinary split: if_splits)
  from o have obj: "is_object cur" and nl: "\<not> (isArray cur \<and> p = ''length'')"
    by (simp_all add: ordinary_slot_def)
  show "get_prop rt cur1 p = Inr (descend c)"
  proof (cases "is_object c")
    case True
    with c1 g show ?thesis by (simp add: descend_def)
  next
    case False
    with c1 obj nl show ?thesis by (simp add: descend_def get_store_same)
  qed
qed

lemma set_path_step:
  "set_path rt cur (p # q # ps) v = Inr cur' \<longleftrightarrow>
     (\<exists>c child.
        get_prop rt cur p = Inr c \<and> ordinary_slot rt cur p
        \<and> set_path rt (descend c) (q # ps) v = Inr child
        \<and> cur' = store (if is_object c then cur else store cur p (VObj [])) p child)"
proof
  assume "set_path rt cur (p # q # ps) v = Inr cur'"
  then obtain c cur1 c1 child where
    g: "get_prop rt cur p = Inr c"
    and f: "(if \<not> is_object c then set_prop rt cur p (VObj []) else Inr cur) = Inr cur1"
    and g1: "get_prop rt cur1 p = Inr c1"
    and w: "set_path rt c1 (q # ps) v = Inr child"
    and r: "cur' = store cur1 p child"
    by (auto split: sum.splits)
  from first_step [OF g f] g1 w r g
  show "\<exists>c child.
        get_prop rt cur p = Inr c \<and> ordinary_slot rt cur p
        \<and> set_path rt (descend c) (q # ps) v = Inr child
        \<and> cur' = store (if is_object c then cur else store cur p (VObj [])) p child"
    by auto
next
  assume "\<exists>c child.
        get_prop rt cur p = Inr c \<and> ordinary_slot rt cur p
        \<and> set_path rt (descend c) (q # ps) v = Inr child
        \<and> cur' = store (if is_object c then cur else store cur p (VObj [])) p child"
  then obtain c child where
    g: "get_prop rt cur p = Inr c" and o: "ordinary_slot rt cur p"
    and w: "set_path rt (descend c) (q # ps) v = Inr child"
    and r: "cur' = store (if is_object c then cur else store cur p (VObj [])) p child"
    by blast
  let ?cur1 = "if is_object c then cur else store cur p (VObj [])"
  from o have f: "(if \<not> is_object c then set_prop rt cur p (VObj []) else Inr cur) = Inr ?cur1"
    by (simp add: set_prop_ordinary)
  from first_step(3) [OF g f] have g1: "get_prop rt ?cur1 p = Inr (descend c)" .
  from g f g1 w r show "set_path rt cur (p # q # ps) v = Inr cur'" by simp
qed

lemma set_path_is_object:
  "set_path rt cur (p # ps) v = Inr cur' \<Longrightarrow> is_object cur \<and> is_object cur'"
proof (cases ps)
  case Nil
  assume "set_path rt cur (p # ps) v = Inr cur'"
  with Nil show ?thesis by (simp add: set_prop_is_object)
next
  case (Cons q qs)
  assume "set_path rt cur (p # ps) v = Inr cur'"
  with Cons have "set_path rt cur (p # q # qs) v = Inr cur'" by simp
  then obtain c child where o: "ordinary_slot rt cur p"
    and r: "cur' = store (if is_object c then cur else store cur p (VObj [])) p child"
    unfolding set_path_step by blast
  from o have "is_object cur" by (simp add: ordinary_slot_def)
  with r show ?thesis by (simp add: store_is_object)
qed

text \<open>A walk of ordinary slots returns, and the path then holds the value.\<close>

lemma set_path_read:
  "ordinary_walk rt cur (p # ps)
     \<Longrightarrow> \<exists>cur'. set_path rt cur (p # ps) v = Inr cur' \<and> get_path rt cur' (p # ps) = Inr v"
proof (induction ps arbitrary: p cur)
  case Nil
  then have o: "ordinary_slot rt cur p" by simp
  then have "is_object cur" and "\<not> (isArray cur \<and> p = ''length'')"
    by (simp_all add: ordinary_slot_def)
  then have "get_path rt (store cur p v) [p] = Inr v"
    by (simp add: store_is_object get_store_same)
  with o show ?case by (simp add: set_prop_ordinary)
next
  case (Cons q ps)
  from Cons.prems obtain c where o: "ordinary_slot rt cur p"
    and g: "get_prop rt cur p = Inr c" and w: "ordinary_walk rt (descend c) (q # ps)"
    by (auto split: sum.splits)
  from Cons.IH [OF w] obtain child where
    s: "set_path rt (descend c) (q # ps) v = Inr child"
    and r: "get_path rt child (q # ps) = Inr v" by blast
  let ?cur1 = "if is_object c then cur else store cur p (VObj [])"
  let ?cur' = "store ?cur1 p child"
  from o have obj: "is_object ?cur1" and nl: "\<not> (isArray ?cur1 \<and> p = ''length'')"
    by (simp_all add: ordinary_slot_def store_is_object store_isArray)
  from g o s have "set_path rt cur (p # q # ps) v = Inr ?cur'"
    unfolding set_path_step by blast
  moreover from obj nl have "get_prop rt ?cur' p = Inr child" by (rule get_store_same)
  with obj r have "get_path rt ?cur' (p # q # ps) = Inr v"
    by (simp add: store_is_object)
  ultimately show ?case by blast
qed

text \<open>
  A write of a value that no accessor takes (an object that is no array length) returns
  only on a walk of ordinary slots.
\<close>

lemma set_path_settled:
  "set_path rt cur (p # ps) v = Inr cur' \<Longrightarrow> ToArrayLength rt v = None \<Longrightarrow> changes_prototype v
     \<Longrightarrow> ordinary_walk rt cur (p # ps)"
proof (induction ps arbitrary: p cur cur')
  case Nil
  then show ?case by (simp add: set_prop_settled)
next
  case (Cons q ps)
  from Cons.prems(1) obtain c child where
    g: "get_prop rt cur p = Inr c" and o: "ordinary_slot rt cur p"
    and s: "set_path rt (descend c) (q # ps) v = Inr child"
    unfolding set_path_step by blast
  from Cons.IH [OF s Cons.prems(2,3)] g o show ?case by simp
qed

lemma set_path_settled_read:
  assumes "set_path rt cur ps v = Inr cur'" and "ps \<noteq> []"
    and "ToArrayLength rt v = None" and "changes_prototype v"
  shows "get_path rt cur' ps = Inr v"
proof -
  from assms(2) obtain p qs where ps: "ps = p # qs" by (cases ps) auto
  from set_path_settled [OF assms(1) [unfolded ps] assms(3,4)]
  have "ordinary_walk rt cur (p # qs)" .
  from set_path_read [OF this, of v] assms(1) ps show ?thesis by auto
qed

section \<open>Members that an object inherits\<close>

text \<open>
  The parser on field names that meet a member of a built-in prototype. A scalar written
  to \<open>__proto__\<close> is ignored by the setter, so nothing is stored under \<open>a\<close> but the mapping
  that the walk created, and a list key \<open>__proto__\<close> leaves its group empty. A path that goes
  through \<open>__proto__\<close> writes into the prototype of all objects, which is outside the model.
  A list key that names an accessor of the \<open>File\<close> that holds the group raises.
\<close>

lemma proto_scalar_example:
  "parseTypedFormData digits_engine [(''a.__proto__'', RawString ''x'')] DEFAULT_OPTIONS
     = Inr (VObj [(''a'', VObj [])])"
  by (simp add: ev)

lemma proto_list_key_example:
  "parseTypedFormData digits_engine
     [(''list::key::env::0'', RawString ''__proto__''), (''list::value::env::0'', RawString ''v'')]
     DEFAULT_OPTIONS
     = Inr (VObj [(''env'', VObj [])])"
  by (simp add: ev)

lemma proto_path_example:
  "parseTypedFormData digits_engine [(''__proto__.polluted'', RawString ''1'')] DEFAULT_OPTIONS
     = Inl OutsideModel"
  by (simp add: ev)

lemma file_accessor_key_example:
  "parseTypedFormData digits_engine
     [(''env'', RawFile 7), (''list::key::env::0'', RawString ''name''),
      (''list::value::env::0'', RawString ''v'')] DEFAULT_OPTIONS
     = Inl TypeError"
  by (simp add: ev)

section \<open>The nodes along a deep write\<close>

lemma get_path_not_object: "\<not> is_object c \<Longrightarrow> t \<noteq> [] \<Longrightarrow> get_path rt c t = Inr VUndefined"
  by (cases t) simp_all

lemma get_path_fresh:
  "get_path rt (VObj []) t = Inr n \<Longrightarrow> t \<noteq> [] \<Longrightarrow> \<not> is_object n"
proof -
  assume g: "get_path rt (VObj []) t = Inr n" and "t \<noteq> []"
  then obtain x xs where t: "t = x # xs" by (cases t) auto
  from g t obtain c where c: "inherited rt (VObj []) x = Inr c" and r: "get_path rt c xs = Inr n"
    by (auto simp: get_prop_def own_value_def is_object_def split: sum.splits)
  from c have nc: "\<not> is_object c" by (rule inherited_not_object)
  show ?thesis
  proof (cases xs)
    case Nil
    with r nc show ?thesis by simp
  next
    case (Cons y ys)
    with r nc show ?thesis by (simp add: is_object_def)
  qed
qed

lemma set_path_fresh:
  assumes "ordinary_walk rt (VObj []) (q # ps)"
    and "set_path rt (VObj []) (q # ps) v = Inr child"
  shows "\<exists>x. child = VObj [(q, x)]"
proof (cases ps)
  case Nil
  with assms show ?thesis by (auto simp: set_prop_ordinary store_def)
next
  case (Cons r rs)
  with assms(2) have "set_path rt (VObj []) (q # r # rs) v = Inr child" by simp
  then obtain c x where
    "child = store (if is_object c then VObj [] else store (VObj []) q (VObj [])) q x"
    unfolding set_path_step by blast
  then show ?thesis by (auto simp: store_def)
qed

lemma set_path_root:
  assumes s: "set_path rt cur (p # ps) v = Inr cur'" and w: "ordinary_walk rt cur (p # ps)"
  shows "is_object cur \<and> shell cur' = shell cur
         \<and> (\<forall>q. q \<noteq> p \<and> \<not> (isArray cur \<and> q = ''length'')
                \<longrightarrow> get_prop rt cur' q = get_prop rt cur q)"
proof (cases ps)
  case Nil
  with w have o: "ordinary_slot rt cur p" by simp
  with s Nil have "cur' = store cur p v" by (simp add: set_prop_ordinary)
  with o show ?thesis by (simp add: ordinary_slot_def store_shell get_store_other)
next
  case (Cons r rs)
  with s have "set_path rt cur (p # r # rs) v = Inr cur'" by simp
  then obtain c child where o: "ordinary_slot rt cur p"
    and c': "cur' = store (if is_object c then cur else store cur p (VObj [])) p child"
    unfolding set_path_step by blast
  from o have "is_object cur" by (simp add: ordinary_slot_def)
  with c' show ?thesis by (simp add: store_shell get_store_other store_isArray)
qed

lemma walk_frame:
  "set_path rt cur (p # ps) v = Inr cur' \<Longrightarrow> ordinary_walk rt cur (p # ps)
     \<Longrightarrow> k < length (p # ps)
     \<Longrightarrow> \<exists>node node'.
           get_path rt cur (take k (p # ps)) = Inr node
         \<and> get_path rt cur' (take k (p # ps)) = Inr node'
         \<and> (if is_object node
            then shell node' = shell node
                 \<and> (\<forall>q. q \<noteq> (p # ps) ! k \<and> \<not> (isArray node \<and> q = ''length'')
                        \<longrightarrow> get_prop rt node' q = get_prop rt node q)
            else (\<exists>c. node' = VObj [((p # ps) ! k, c)]))"
proof (induction ps arbitrary: p cur cur' k)
  case Nil
  then have "k = 0" by simp
  with set_path_root [OF Nil.prems(1,2)] show ?case by simp
next
  case (Cons r rs)
  show ?case
  proof (cases k)
    case 0
    with set_path_root [OF Cons.prems(1,2)] show ?thesis by simp
  next
    case (Suc j)
    from Cons.prems(1) obtain c child where
      g: "get_prop rt cur p = Inr c" and o: "ordinary_slot rt cur p"
      and s: "set_path rt (descend c) (r # rs) v = Inr child"
      and c': "cur' = store (if is_object c then cur else store cur p (VObj [])) p child"
      unfolding set_path_step by blast
    from Cons.prems(2) g have w: "ordinary_walk rt (descend c) (r # rs)" by simp
    from Cons.prems(3) Suc have j: "j < length (r # rs)" by simp
    let ?t = "take j (r # rs)"
    from Cons.IH [OF s w j] obtain nd nd' where
      n1: "get_path rt (descend c) ?t = Inr nd" and n2: "get_path rt child ?t = Inr nd'"
      and fr: "if is_object nd
               then shell nd' = shell nd
                    \<and> (\<forall>q. q \<noteq> (r # rs) ! j \<and> \<not> (isArray nd \<and> q = ''length'')
                           \<longrightarrow> get_prop rt nd' q = get_prop rt nd q)
               else (\<exists>x. nd' = VObj [((r # rs) ! j, x)])"
      by blast
    from o have obj: "is_object cur" and nl: "\<not> (isArray cur \<and> p = ''length'')"
      by (simp_all add: ordinary_slot_def)
    let ?cur1 = "if is_object c then cur else store cur p (VObj [])"
    from obj nl have "get_prop rt (store ?cur1 p child) p = Inr child"
      by (intro get_store_same) (simp_all add: store_is_object store_isArray)
    with c' obj have new: "get_path rt cur' (take k (p # r # rs)) = Inr nd'"
      using n2 Suc by (simp add: store_is_object)
    from g obj Suc have old: "get_path rt cur (take k (p # r # rs)) = get_path rt c ?t"
      by simp
    have idx: "(p # r # rs) ! k = (r # rs) ! j" using Suc by simp
    show ?thesis
    proof (cases "is_object c")
      case True
      with n1 old have "get_path rt cur (take k (p # r # rs)) = Inr nd" by (simp add: descend_def)
      with new fr idx show ?thesis by auto
    next
      case False
      show ?thesis
      proof (cases j)
        case 0
        with old have o1: "get_path rt cur (take k (p # r # rs)) = Inr c" by simp
        from 0 n2 have "nd' = child" by simp
        moreover from False w s have "\<exists>x. child = VObj [(r, x)]"
          using set_path_fresh [of rt r rs v child] by (simp add: descend_def)
        ultimately have "\<exists>x. nd' = VObj [((p # r # rs) ! k, x)]" using idx 0 by simp
        with o1 new False show ?thesis by auto
      next
        case (Suc i)
        then have ne: "?t \<noteq> []" by simp
        from False ne old have o1: "get_path rt cur (take k (p # r # rs)) = Inr VUndefined"
          by (simp add: get_path_not_object)
        from False n1 have "get_path rt (VObj []) ?t = Inr nd" by (simp add: descend_def)
        from get_path_fresh [OF this ne] fr idx
        have "\<exists>x. nd' = VObj [((p # r # rs) ! k, x)]" by simp
        with o1 new show ?thesis by (auto simp: is_object_def)
      qed
    qed
  qed
qed

section \<open>The cleanup pass\<close>

text \<open>
  C7. The cleanup pass of \<open>ignoreEmpty\<close> (an array drops the elements that are the empty
  string, \<open>null\<close> or \<open>undefined\<close>; an object is cleaned property by property; a scalar is
  returned as it is) gives on its own result the same result again.
\<close>

theorem clean_idempotent: "clean (clean v) = clean v"
  by (induction v) (auto simp: isEmptyValue_def)

section \<open>Casting a blank string to a number\<close>

text \<open>
  C9. With the declared type \<open>number\<close>, an empty string or a string of white space only is
  cast to the number 0, whatever \<open>strict\<close> is: \<open>Number\<close> gives 0 on it, which is finite, so
  neither the error nor the fallback to the string is taken.
\<close>

theorem cast_blank_number:
  "list_all is_ws raw \<Longrightarrow> castValue rt ''number'' raw opts sep = Inr (VNum (Fin 0))"
  by (simp add: castValue_def js_Number_def trim_blank isFinite_def)

theorem cast_blank_number_witness:
  "list_all is_ws '' '' \<and>
   castValue digits_engine ''number'' '' '' (DEFAULT_OPTIONS\<lparr>strict := True\<rparr>) None
     = Inr (VNum (Fin 0))"
proof -
  have blank: "list_all is_ws '' ''" by (simp add: is_ws_def)
  show ?thesis
    using blank cast_blank_number [OF blank, of digits_engine "DEFAULT_OPTIONS\<lparr>strict := True\<rparr>" None]
    by simp
qed

section \<open>Paths without a segment\<close>

lemma segments_Nil: "segments [] = []"
  by (simp add: segments_def js_split_def split_nonempty.simps)

lemma segments_dot: "segments (CHR ''.'' # cs) = segments cs"
  by (simp add: segments_def js_split_def split_nonempty.simps [of "''.''" "CHR ''.'' # cs"])

lemma segments_dots: "list_all (\<lambda>c. c = CHR ''.'') path \<Longrightarrow> segments path = []"
  by (induction path) (auto simp: segments_Nil segments_dot)

text \<open>
  C6, as amended. For every tree and every value, a deep write with a path of zero
  segments (the empty string, a string of dots only) leaves the tree unchanged, and a deep
  read with such a path yields the tree itself, the root, and not \<open>undefined\<close>.
\<close>

theorem zero_segments:
  "segments path = [] \<Longrightarrow> setDeep rt obj path v = Inr obj \<and> getDeep rt obj path = Inr obj"
  by (simp add: setDeep_def getDeep_def)

theorem zero_segments_witness:
  "segments ''..'' = [] \<and>
   setDeep digits_engine (VObj [(''a'', VStr ''x'')]) ''..'' VNull = Inr (VObj [(''a'', VStr ''x'')]) \<and>
   getDeep digits_engine (VObj [(''a'', VStr ''x'')]) ''..'' = Inr (VObj [(''a'', VStr ''x'')])"
proof -
  have z: "segments ''..'' = []" by (simp add: segments_dots)
  show ?thesis
    using z zero_segments [OF z, of digits_engine "VObj [(''a'', VStr ''x'')]" VNull] by simp
qed

text \<open>
  C6 as it is stated fails: the empty path has no segment, and reading it from an object
  gives that object, where the claim says absent.
\<close>

theorem read_empty_path_counterexample:
  "segments [] = [] \<and> getDeep digits_engine (VObj [(''a'', VStr ''x'')]) [] \<noteq> Inr VUndefined"
  by (simp add: segments_Nil getDeep_def)

section \<open>Entries that leave no trace\<close>

lemma consume_append:
  "consume rt opts st (xs @ ys) =
     (case consume rt opts st xs of Inl e \<Rightarrow> Inl e | Inr st1 \<Rightarrow> consume rt opts st1 ys)"
  by (induction xs arbitrary: st) (auto split: sum.splits)

lemma consume_drop_entry:
  assumes "\<And>st. step rt opts st entry = Inr st"
  shows "consume rt opts st (es1 @ entry # es2) = consume rt opts st (es1 @ es2)"
  using assms by (simp add: consume_append split: sum.splits)

lemma parse_drop_entry:
  assumes "\<And>st. step rt opts st entry = Inr st"
  shows "parseTypedFormData rt (es1 @ entry # es2) opts = parseTypedFormData rt (es1 @ es2) opts"
  using consume_drop_entry [OF assms] by (simp add: parseTypedFormData_def)

lemma step_blank:
  "ignoreEmpty opts \<Longrightarrow> list_all is_ws s \<Longrightarrow> type (parseFieldName nm) \<noteq> ''list''
     \<Longrightarrow> step rt opts st (nm, RawString s) = Inr st"
  by (simp add: step_def Let_def js_String_def trim_blank)

text \<open>
  C10. With \<open>ignoreEmpty\<close>, an entry that is no list entry and whose value is a string of
  white space only (the empty string too) is skipped: the turn of the loop leaves \<open>out\<close>
  and the buffered list entries as they are, and the parse of the input is the parse of
  the input without this entry.
\<close>

theorem blank_value_skipped:
  assumes "ignoreEmpty opts" and "list_all is_ws s" and "type (parseFieldName nm) \<noteq> ''list''"
  shows "step rt opts st (nm, RawString s) = Inr st \<and>
         parseTypedFormData rt (es1 @ (nm, RawString s) # es2) opts
           = parseTypedFormData rt (es1 @ es2) opts"
  using step_blank [OF assms] parse_drop_entry [of rt opts "(nm, RawString s)" es1 es2]
  by simp

theorem blank_value_skipped_witness:
  "ignoreEmpty (DEFAULT_OPTIONS\<lparr>ignoreEmpty := True\<rparr>) \<and> list_all is_ws [CHR '' '', CHR 0x09] \<and>
   type (parseFieldName ''string::name'') \<noteq> ''list'' \<and>
   parseTypedFormData digits_engine
     ([] @ (''string::name'', RawString [CHR '' '', CHR 0x09]) # [(''array::tags'', RawString ''a,,b'')])
     (DEFAULT_OPTIONS\<lparr>ignoreEmpty := True\<rparr>)
     = Inr (VObj [(''tags'', VArr [VStr ''a'', VStr ''b''] [])])"
proof -
  have h1: "ignoreEmpty (DEFAULT_OPTIONS\<lparr>ignoreEmpty := True\<rparr>)" by simp
  have h2: "list_all is_ws [CHR '' '', CHR 0x09]" by (simp add: is_ws_def)
  have h3: "type (parseFieldName ''string::name'') \<noteq> ''list''" by (simp add: ev)
  have "parseTypedFormData digits_engine ([] @ [(''array::tags'', RawString ''a,,b'')])
          (DEFAULT_OPTIONS\<lparr>ignoreEmpty := True\<rparr>)
        = Inr (VObj [(''tags'', VArr [VStr ''a'', VStr ''b''] [])])"
    by (simp add: ev)
  with blank_value_skipped [OF h1 h2 h3, of digits_engine _ "[]" "[(''array::tags'', RawString ''a,,b'')]"]
  show ?thesis using h1 h2 h3 by simp
qed

section \<open>Attachments\<close>

text \<open>
  C8. An entry that is no list entry and carries a \<open>File\<close> is written with \<open>setDeep\<close> at
  its path as it is, whatever the path holds, an earlier \<open>File\<close> included: the merge of
  repeated values is not applied. When the write returns and the path has a segment, the
  path then holds this \<open>File\<close>, and no array.
\<close>

theorem file_overwrites:
  assumes "type (parseFieldName nm) \<noteq> ''list''"
  shows "step rt opts (out, les) (nm, RawFile h)
           = (case setDeep rt out (key (parseFieldName nm)) (VFile h []) of
                Inl e \<Rightarrow> Inl e
              | Inr out1 \<Rightarrow> Inr (out1, les))
         \<and> (\<forall>out1 les1.
               step rt opts (out, les) (nm, RawFile h) = Inr (out1, les1)
               \<and> segments (key (parseFieldName nm)) \<noteq> []
               \<longrightarrow> getDeep rt out1 (key (parseFieldName nm)) = Inr (VFile h []))"
proof -
  have eq: "step rt opts (out, les) (nm, RawFile h)
           = (case setDeep rt out (key (parseFieldName nm)) (VFile h []) of
                Inl e \<Rightarrow> Inl e
              | Inr out1 \<Rightarrow> Inr (out1, les))"
    using assms by (simp add: step_def Let_def)
  have "getDeep rt out1 (key (parseFieldName nm)) = Inr (VFile h [])"
    if "step rt opts (out, les) (nm, RawFile h) = Inr (out1, les1)"
      and "segments (key (parseFieldName nm)) \<noteq> []" for out1 les1
  proof -
    from that(1) eq have "setDeep rt out (key (parseFieldName nm)) (VFile h []) = Inr out1"
      by (simp split: sum.splits)
    then show ?thesis
      using that(2)
        set_path_settled_read [of rt out "segments (key (parseFieldName nm))" "VFile h []" out1]
      by (simp add: setDeep_def getDeep_def ToArrayLength_def changes_prototype_def is_object_def)
  qed
  with eq show ?thesis by blast
qed

theorem file_overwrites_witness:
  "type (parseFieldName ''file::avatar'') \<noteq> ''list'' \<and>
   step digits_engine DEFAULT_OPTIONS (VObj [(''avatar'', VFile 1 [])], []) (''file::avatar'', RawFile 2)
     = Inr (VObj [(''avatar'', VFile 2 [])], []) \<and>
   segments (key (parseFieldName ''file::avatar'')) \<noteq> [] \<and>
   getDeep digits_engine (VObj [(''avatar'', VFile 2 [])]) (key (parseFieldName ''file::avatar''))
     = Inr (VFile 2 [])"
proof -
  have h: "type (parseFieldName ''file::avatar'') \<noteq> ''list''" by (simp add: ev)
  have s: "step digits_engine DEFAULT_OPTIONS (VObj [(''avatar'', VFile 1 [])], []) (''file::avatar'', RawFile 2)
     = Inr (VObj [(''avatar'', VFile 2 [])], [])"
    by (simp add: ev)
  have n: "segments (key (parseFieldName ''file::avatar'')) \<noteq> []" by (simp add: ev)
  from file_overwrites [OF h, of digits_engine DEFAULT_OPTIONS "VObj [(''avatar'', VFile 1 [])]" "[]" 2] s n
  have "getDeep digits_engine (VObj [(''avatar'', VFile 2 [])]) (key (parseFieldName ''file::avatar''))
     = Inr (VFile 2 [])"
    by blast
  with h s n show ?thesis by blast
qed

section \<open>Invalid list fields\<close>

lemma parseListEntry_invalid:
  "invalid_list_name rawName \<Longrightarrow>
     parseListEntry rawName rawVal opts
       = (if strict opts then Inl (InvalidListField rawName) else Inr None)"
  by (auto simp: invalid_list_name_def parseListEntry_def Let_def)

lemma parseListEntry_valid:
  "\<not> invalid_list_name rawName \<Longrightarrow>
     parseListEntry rawName rawVal opts
       = Inr (Some \<lparr>variant = toLowerCase (js_split ''::'' rawName ! 1),
                     name = join ''::'' (butlast (drop 2 (js_split ''::'' rawName))),
                     index = last (js_split ''::'' rawName),
                     val = js_String rawVal\<rparr>)"
  by (auto simp: invalid_list_name_def parseListEntry_def Let_def)

lemma step_invalid_list:
  assumes "type (parseFieldName rawName) = ''list''" and "invalid_list_name rawName"
  shows "step rt opts st (rawName, rawVal)
           = (if strict opts then Inl (InvalidListField rawName) else Inr st)"
  using assms by (simp add: step_def Let_def parseListEntry_invalid)

text \<open>
  C5, as amended. For an entry whose name classifies as a list entry: when the split of the
  whole raw name on \<open>::\<close> has fewer than 4 segments, or the variant segment is not \<open>key\<close> or
  \<open>value\<close> up to case, or the group name or the index is the empty string (nothing is
  trimmed), then under \<open>strict\<close> the turn of the loop, and with it the parse, raises the error
  for the invalid list field, and otherwise the entry is dropped: the turn leaves the state
  as it is and the parse is the parse of the input without the entry.
\<close>

theorem invalid_list_entry:
  assumes "type (parseFieldName rawName) = ''list''" and "invalid_list_name rawName"
  shows "(strict opts \<longrightarrow>
            step rt opts st (rawName, rawVal) = Inl (InvalidListField rawName)
            \<and> (\<forall>es1 es2 st1. consume rt opts (VObj [], []) es1 = Inr st1 \<longrightarrow>
                  parseTypedFormData rt (es1 @ (rawName, rawVal) # es2) opts
                    = Inl (InvalidListField rawName)))
         \<and> (\<not> strict opts \<longrightarrow>
              step rt opts st (rawName, rawVal) = Inr st
              \<and> (\<forall>es1 es2. parseTypedFormData rt (es1 @ (rawName, rawVal) # es2) opts
                              = parseTypedFormData rt (es1 @ es2) opts))"
proof (intro conjI impI allI)
  assume "strict opts"
  then show "step rt opts st (rawName, rawVal) = Inl (InvalidListField rawName)"
    by (simp add: step_invalid_list [OF assms])
next
  fix es1 es2 st1
  assume s: "strict opts" and c: "consume rt opts (VObj [], []) es1 = Inr st1"
  from s have "step rt opts st1 (rawName, rawVal) = Inl (InvalidListField rawName)"
    by (simp add: step_invalid_list [OF assms])
  with c show "parseTypedFormData rt (es1 @ (rawName, rawVal) # es2) opts
                 = Inl (InvalidListField rawName)"
    by (simp add: parseTypedFormData_def consume_append)
next
  assume "\<not> strict opts"
  then show "step rt opts st (rawName, rawVal) = Inr st"
    by (simp add: step_invalid_list [OF assms])
next
  fix es1 es2
  assume "\<not> strict opts"
  then have "\<And>st. step rt opts st (rawName, rawVal) = Inr st"
    by (simp add: step_invalid_list [OF assms])
  then show "parseTypedFormData rt (es1 @ (rawName, rawVal) # es2) opts
               = parseTypedFormData rt (es1 @ es2) opts"
    by (rule parse_drop_entry)
qed

text \<open>
  C5 as it is stated fails for a group name that is not empty but blank: \<open>list::key:: ::0\<close>
  has the group name of one space, which is empty after trimming, and the entry is
  accepted under \<open>strict\<close> and, without it, contributes the mapping at the path of one space.
\<close>

theorem blank_group_name_counterexample:
  "type (parseFieldName ''list::key:: ::0'') = ''list'' \<and>
   js_split ''::'' ''list::key:: ::0'' = [''list'', ''key'', '' '', ''0''] \<and>
   trim '' '' = [] \<and>
   parseListEntry ''list::key:: ::0'' (RawString ''K'') (DEFAULT_OPTIONS\<lparr>strict := True\<rparr>)
     = Inr (Some \<lparr>variant = ''key'', name = '' '', index = ''0'', val = ''K''\<rparr>) \<and>
   parseTypedFormData digits_engine [(''list::key:: ::0'', RawString ''K'')] DEFAULT_OPTIONS
     = Inr (VObj [('' '', VObj [(''K'', VStr [])])])"
  by (simp add: ev)

theorem invalid_list_entry_witness:
  "type (parseFieldName ''list::key::::0'') = ''list'' \<and> invalid_list_name ''list::key::::0'' \<and>
   strict (DEFAULT_OPTIONS\<lparr>strict := True\<rparr>) \<and> \<not> strict DEFAULT_OPTIONS \<and>
   step digits_engine (DEFAULT_OPTIONS\<lparr>strict := True\<rparr>) (VObj [], []) (''list::key::::0'', RawString ''K'')
     = Inl (InvalidListField ''list::key::::0'') \<and>
   step digits_engine DEFAULT_OPTIONS (VObj [], []) (''list::key::::0'', RawString ''K'')
     = Inr (VObj [], [])"
proof -
  have h1: "type (parseFieldName ''list::key::::0'') = ''list''" by (simp add: ev)
  have h2: "invalid_list_name ''list::key::::0''" by (simp add: invalid_list_name_def ev)
  have s: "strict (DEFAULT_OPTIONS\<lparr>strict := True\<rparr>)" and n: "\<not> strict DEFAULT_OPTIONS"
    by (simp_all add: ev)
  from invalid_list_entry [OF h1 h2, of "DEFAULT_OPTIONS\<lparr>strict := True\<rparr>" digits_engine "(VObj [], [])" "RawString ''K''"] s
  have a: "step digits_engine (DEFAULT_OPTIONS\<lparr>strict := True\<rparr>) (VObj [], []) (''list::key::::0'', RawString ''K'')
     = Inl (InvalidListField ''list::key::::0'')"
    by blast
  from invalid_list_entry [OF h1 h2, of DEFAULT_OPTIONS digits_engine "(VObj [], [])" "RawString ''K''"] n
  have b: "step digits_engine DEFAULT_OPTIONS (VObj [], []) (''list::key::::0'', RawString ''K'')
     = Inr (VObj [], [])"
    by blast
  from h1 h2 s n a b show ?thesis by blast
qed

section \<open>Repeated fields\<close>






text \<open>The two examples of the specification for repeated fields.\<close>

lemma repeated_scalar_example:
  "parseTypedFormData digits_engine
     [(''string::x'', RawString ''A''), (''string::x'', RawString ''B'')] DEFAULT_OPTIONS
   = Inr (VObj [(''x'', VArr [VStr ''A'', VStr ''B''] [])])"
  by (simp add: ev)

lemma repeated_array_example:
  "parseTypedFormData digits_engine
     [(''array::tags'', RawString ''a,b''), (''array::tags'', RawString ''c,d'')] DEFAULT_OPTIONS
   = Inr (VObj [(''tags'', VArr [VStr ''a'', VStr ''b'', VStr ''c'', VStr ''d''] [])])"
  by (simp add: ev)

section \<open>The walk of a deep write\<close>

text \<open>
  C2, as amended. A deep write of a value at a dotted path whose walk is one of ordinary
  slots returns, and then the path holds the value, and for each segment of the path, the
  last and those on the way: when the old tree has an object at the path before that
  segment (a mapping, but also an array, a date or a \<open>File\<close>), the new tree has the same
  object there, not overwritten, and every property of it other than the segment (and than
  the \<open>length\<close> of an array) reads as before; when the old tree has no object there (the
  node is missing, \<open>null\<close>, a scalar or a function), the new tree has there a new mapping
  whose one property is the segment.
\<close>

theorem deep_write:
  "segments path \<noteq> [] \<and> ordinary_walk rt obj (segments path) \<longrightarrow>
     (\<exists>obj'. setDeep rt obj path v = Inr obj' \<and> getDeep rt obj' path = Inr v
        \<and> (\<forall>k < length (segments path). \<exists>node node'.
               get_path rt obj (take k (segments path)) = Inr node
             \<and> get_path rt obj' (take k (segments path)) = Inr node'
             \<and> (if is_object node
                then shell node' = shell node
                     \<and> (\<forall>q. q \<noteq> segments path ! k \<and> \<not> (isArray node \<and> q = ''length'')
                            \<longrightarrow> get_prop rt node' q = get_prop rt node q)
                else (\<exists>c. node' = VObj [(segments path ! k, c)]))))"
proof
  assume a: "segments path \<noteq> [] \<and> ordinary_walk rt obj (segments path)"
  then obtain p ps where sg: "segments path = p # ps" by (cases "segments path") auto
  from a sg have w: "ordinary_walk rt obj (p # ps)" by simp
  from set_path_read [OF w, of v] obtain obj' where
    s: "set_path rt obj (p # ps) v = Inr obj'" and r: "get_path rt obj' (p # ps) = Inr v"
    by blast
  have fr: "\<forall>k < length (p # ps). \<exists>node node'.
               get_path rt obj (take k (p # ps)) = Inr node
             \<and> get_path rt obj' (take k (p # ps)) = Inr node'
             \<and> (if is_object node
                then shell node' = shell node
                     \<and> (\<forall>q. q \<noteq> (p # ps) ! k \<and> \<not> (isArray node \<and> q = ''length'')
                            \<longrightarrow> get_prop rt node' q = get_prop rt node q)
                else (\<exists>c. node' = VObj [((p # ps) ! k, c)]))"
    using walk_frame [OF s w] by blast
  show "\<exists>obj'. setDeep rt obj path v = Inr obj' \<and> getDeep rt obj' path = Inr v
        \<and> (\<forall>k < length (segments path). \<exists>node node'.
               get_path rt obj (take k (segments path)) = Inr node
             \<and> get_path rt obj' (take k (segments path)) = Inr node'
             \<and> (if is_object node
                then shell node' = shell node
                     \<and> (\<forall>q. q \<noteq> segments path ! k \<and> \<not> (isArray node \<and> q = ''length'')
                            \<longrightarrow> get_prop rt node' q = get_prop rt node q)
                else (\<exists>c. node' = VObj [(segments path ! k, c)])))"
    unfolding setDeep_def getDeep_def sg using s r fr by blast
qed

text \<open>
  C2 as it is stated fails for an array and for a date at an intermediate segment: the
  write of \<open>tags.x\<close> into a tree that holds an array at \<open>tags\<close> keeps the array and puts the
  property \<open>x\<close> on it, and likewise for a date. Neither is replaced by a mapping.
\<close>

theorem array_kept_counterexample:
  "setDeep digits_engine (VObj [(''tags'', VArr [VStr ''a''] [])]) ''tags.x'' (VStr ''v'')
     = Inr (VObj [(''tags'', VArr [VStr ''a''] [(''x'', VStr ''v'')])]) \<and>
   setDeep digits_engine (VObj [(''d'', VDate 0 [])]) ''d.x'' (VStr ''v'')
     = Inr (VObj [(''d'', VDate 0 [(''x'', VStr ''v'')])])"
  by (simp add: ev)

theorem deep_write_witness:
  "segments ''u.p.c'' \<noteq> [] \<and>
   ordinary_walk digits_engine
     (VObj [(''u'', VObj [(''n'', VStr ''x''), (''p'', VStr ''s'')])]) (segments ''u.p.c'') \<and>
   setDeep digits_engine (VObj [(''u'', VObj [(''n'', VStr ''x''), (''p'', VStr ''s'')])])
     ''u.p.c'' (VBool True)
     = Inr (VObj [(''u'', VObj [(''n'', VStr ''x''), (''p'', VObj [(''c'', VBool True)])])]) \<and>
   getDeep digits_engine
     (VObj [(''u'', VObj [(''n'', VStr ''x''), (''p'', VObj [(''c'', VBool True)])])]) ''u.p.c''
     = Inr (VBool True) \<and>
   (1::nat) < length (segments ''u.p.c'') \<and>
   get_path digits_engine (VObj [(''u'', VObj [(''n'', VStr ''x''), (''p'', VStr ''s'')])])
     (take 1 (segments ''u.p.c'')) = Inr (VObj [(''n'', VStr ''x''), (''p'', VStr ''s'')]) \<and>
   get_path digits_engine
     (VObj [(''u'', VObj [(''n'', VStr ''x''), (''p'', VObj [(''c'', VBool True)])])])
     (take 1 (segments ''u.p.c''))
     = Inr (VObj [(''n'', VStr ''x''), (''p'', VObj [(''c'', VBool True)])]) \<and>
   is_object (VObj [(''n'', VStr ''x''), (''p'', VStr ''s'')]) \<and>
   ''n'' \<noteq> segments ''u.p.c'' ! 1 \<and>
   get_prop digits_engine (VObj [(''n'', VStr ''x''), (''p'', VObj [(''c'', VBool True)])]) ''n''
     = get_prop digits_engine (VObj [(''n'', VStr ''x''), (''p'', VStr ''s'')]) ''n'' \<and>
   (2::nat) < length (segments ''u.p.c'') \<and>
   get_path digits_engine (VObj [(''u'', VObj [(''n'', VStr ''x''), (''p'', VStr ''s'')])])
     (take 2 (segments ''u.p.c'')) = Inr (VStr ''s'') \<and>
   \<not> is_object (VStr ''s'') \<and>
   (\<exists>c. get_path digits_engine
          (VObj [(''u'', VObj [(''n'', VStr ''x''), (''p'', VObj [(''c'', VBool True)])])])
          (take 2 (segments ''u.p.c'')) = Inr (VObj [(segments ''u.p.c'' ! 2, c)]))"
proof -
  let ?obj = "VObj [(''u'', VObj [(''n'', VStr ''x''), (''p'', VStr ''s'')])]"
  let ?obj' = "VObj [(''u'', VObj [(''n'', VStr ''x''), (''p'', VObj [(''c'', VBool True)])])]"
  let ?n = "VObj [(''n'', VStr ''x''), (''p'', VStr ''s'')]"
  let ?n' = "VObj [(''n'', VStr ''x''), (''p'', VObj [(''c'', VBool True)])]"
  have sg: "segments ''u.p.c'' = [''u'', ''p'', ''c'']" by (simp add: ev)
  have h: "segments ''u.p.c'' \<noteq> [] \<and> ordinary_walk digits_engine ?obj (segments ''u.p.c'')"
    unfolding sg by (simp add: ev ordinary_slot_def descend_def)
  have w: "setDeep digits_engine ?obj ''u.p.c'' (VBool True) = Inr ?obj'" by (simp add: ev)
  have k1: "(1::nat) < length (segments ''u.p.c'')"
    and k2: "(2::nat) < length (segments ''u.p.c'')"
    unfolding sg by simp_all
  have g1: "get_path digits_engine ?obj (take 1 (segments ''u.p.c'')) = Inr ?n"
    unfolding sg by (simp add: ev)
  have g1': "get_path digits_engine ?obj' (take 1 (segments ''u.p.c'')) = Inr ?n'"
    unfolding sg by (simp add: ev)
  have g2: "get_path digits_engine ?obj (take 2 (segments ''u.p.c'')) = Inr (VStr ''s'')"
    unfolding sg by (simp add: ev)
  have o1: "is_object ?n" and o2: "\<not> is_object (VStr ''s'')" by (simp_all add: is_object_def)
  have q: "''n'' \<noteq> segments ''u.p.c'' ! 1" unfolding sg by simp
  have na: "\<not> (isArray ?n \<and> ''n'' = ''length'')" by simp
  from deep_write [of "''u.p.c''" digits_engine ?obj "VBool True"] h w
  have r: "getDeep digits_engine ?obj' ''u.p.c'' = Inr (VBool True)"
    and fr: "\<forall>k < length (segments ''u.p.c''). \<exists>node node'.
               get_path digits_engine ?obj (take k (segments ''u.p.c'')) = Inr node
             \<and> get_path digits_engine ?obj' (take k (segments ''u.p.c'')) = Inr node'
             \<and> (if is_object node
                then shell node' = shell node
                     \<and> (\<forall>q. q \<noteq> segments ''u.p.c'' ! k \<and> \<not> (isArray node \<and> q = ''length'')
                            \<longrightarrow> get_prop digits_engine node' q = get_prop digits_engine node q)
                else (\<exists>c. node' = VObj [(segments ''u.p.c'' ! k, c)]))"
    by auto
  from fr k1 g1 g1' o1 q na
  have f1: "get_prop digits_engine ?n' ''n'' = get_prop digits_engine ?n ''n''"
    by (metis Inr_inject)
  from fr k2 g2 o2
  have f2: "\<exists>c. get_path digits_engine ?obj' (take 2 (segments ''u.p.c''))
                  = Inr (VObj [(segments ''u.p.c'' ! 2, c)])"
    by (metis Inr_inject)
  from h w r k1 g1 g1' o1 q f1 k2 g2 o2 f2 show ?thesis by blast
qed

text \<open>
  The slots that are not ordinary, where the engine decides: the \<open>length\<close> of an array
  takes a number and refuses another value, the setter of \<open>__proto__\<close> ignores a scalar,
  and an accessor of a \<open>File\<close> refuses every value.
\<close>

lemma engine_slot_examples:
  "setDeep digits_engine (VObj [(''a'', VArr [VStr ''x'', VStr ''y''] [])]) ''a.length'' (VStr ''1'')
     = Inr (VObj [(''a'', VArr [VStr ''x''] [])]) \<and>
   setDeep digits_engine (VObj [(''a'', VArr [VStr ''x'', VStr ''y''] [])]) ''a.length'' (VStr ''abc'')
     = Inl RangeError \<and>
   setDeep digits_engine (VObj []) ''a.__proto__'' (VStr ''x'') = Inr (VObj [(''a'', VObj [])]) \<and>
   setDeep digits_engine (VObj [(''f'', VFile 1 [])]) ''f.name'' (VStr ''x'') = Inl TypeError"
  by (simp add: ev)

section \<open>What a parse without strict can raise\<close>

lemma get_prop_error: "get_prop rt cur p = Inl e \<Longrightarrow> \<not> parser_error e"
  by (auto simp: get_prop_def inherited_def parser_error_def split: if_splits option.splits)

lemma set_prop_error: "set_prop rt cur p v = Inl e \<Longrightarrow> \<not> parser_error e"
  by (auto simp: set_prop_def parser_error_def split: if_splits option.splits)

lemma get_path_error: "get_path rt cur ps = Inl e \<Longrightarrow> \<not> parser_error e"
  by (induction ps arbitrary: cur) (auto simp: get_prop_error split: if_splits sum.splits)

lemma set_path_error: "set_path rt cur ps v = Inl e \<Longrightarrow> \<not> parser_error e"
proof (induction rt cur ps v rule: set_path.induct)
  case (1 rt cur v)
  then show ?case by simp
next
  case (2 rt cur p v)
  then show ?case by (simp add: set_prop_error)
next
  case (3 rt cur p q ps v)
  show ?case
  proof (cases "get_prop rt cur p")
    case (Inl e1)
    with "3.prems" show ?thesis by (simp add: get_prop_error)
  next
    case (Inr c)
    note g = this
    show ?thesis
    proof (cases "if \<not> is_object c then set_prop rt cur p (VObj []) else Inr cur")
      case (Inl e1)
      with g "3.prems" have "e1 = e" by simp
      with Inl show ?thesis by (auto simp: set_prop_error split: if_splits)
    next
      case (Inr cur1)
      note f = this
      show ?thesis
      proof (cases "get_prop rt cur1 p")
        case (Inl e1)
        with g f "3.prems" show ?thesis by (simp add: get_prop_error)
      next
        case (Inr c1)
        with g f "3.prems" have "set_path rt c1 (q # ps) v = Inl e"
          by (simp split: sum.splits)
        with "3.IH" [OF g f Inr] show ?thesis by simp
      qed
    qed
  qed
qed

lemma update_at_error:
  assumes "\<And>c e. f c = Inl e \<Longrightarrow> \<not> parser_error e"
  shows "update_at rt cur ps f = Inl e \<Longrightarrow> \<not> parser_error e"
proof (induction ps arbitrary: cur)
  case Nil
  then show ?case using assms by simp
next
  case (Cons p ps)
  then show ?case by (auto simp: get_prop_error split: sum.splits)
qed

lemma assignField_error: "assignField rt out ty k parsed = Inl e \<Longrightarrow> \<not> parser_error e"
  by (auto simp: assignField_def getDeep_def setDeep_def get_path_error set_path_error
           split: if_splits sum.splits)

lemma applyKeyEntry_error: "applyKeyEntry rt m t ke = Inl e \<Longrightarrow> \<not> parser_error e"
proof -
  assume a: "applyKeyEntry rt m t ke = Inl e"
  have u: "\<not> parser_error e"
    if "update_at rt t1 (segments (name ke))
          (\<lambda>container. set_prop rt container (val ke) (VStr mv)) = Inl e" for t1 mv
    using that update_at_error [of "\<lambda>container. set_prop rt container (val ke) (VStr mv)"]
      set_prop_error by blast
  from a show ?thesis
    by (auto simp: applyKeyEntry_def Let_def getDeep_def setDeep_def get_path_error
          set_path_error u split: if_splits sum.splits)
qed

lemma applyKeyEntries_error: "applyKeyEntries rt m t kes = Inl e \<Longrightarrow> \<not> parser_error e"
  by (induction kes arbitrary: t) (auto simp: applyKeyEntry_error split: sum.splits)

lemma applyListEntries_error: "applyListEntries rt les t = Inl e \<Longrightarrow> \<not> parser_error e"
  by (auto simp: applyListEntries_def Let_def applyKeyEntries_error split: if_splits)

lemma parseListEntry_nonstrict:
  "\<not> strict opts \<Longrightarrow> \<exists>r. parseListEntry n v opts = Inr r"
  by (simp add: parseListEntry_def Let_def)

lemma castValue_nonstrict:
  "\<not> strict opts \<Longrightarrow> \<exists>v. castValue rt ty raw opts sep = Inr v"
  by (simp add: castValue_def Let_def split: option.splits)

lemma step_error:
  assumes "\<not> strict opts" and "step rt opts st entry = Inl e"
  shows "\<not> parser_error e"
proof (cases "type (parseFieldName (fst entry)) = ''list''")
  case True
  from parseListEntry_nonstrict [OF assms(1)] obtain r where
    "parseListEntry (fst entry) (snd entry) opts = Inr r" by blast
  with True assms(2) show ?thesis
    by (simp add: step_def Let_def split: option.splits)
next
  case False
  show ?thesis
  proof (cases "\<exists>h. snd entry = RawFile h")
    case True
    with False assms(2) show ?thesis
      by (auto simp: step_def Let_def setDeep_def set_path_error split: sum.splits)
  next
    case nofile: False
    let ?pf = "parseFieldName (fst entry)"
    from castValue_nonstrict [OF assms(1)] obtain v where
      c: "castValue rt (type ?pf) (js_String (snd entry)) opts (arraySeparator ?pf) = Inr v"
      by blast
    from False nofile assms(2) c show ?thesis
      by (cases "snd entry")
         (auto simp: step_def Let_def assignField_error split: sum.splits if_splits)
  qed
qed

lemma consume_error:
  "\<not> strict opts \<Longrightarrow> consume rt opts st entries = Inl e \<Longrightarrow> \<not> parser_error e"
  by (induction entries arbitrary: st) (auto simp: step_error split: sum.splits)

lemma parse_error:
  "\<not> strict opts \<Longrightarrow> parseTypedFormData rt entries opts = Inl e \<Longrightarrow> \<not> parser_error e"
  by (auto simp: parseTypedFormData_def consume_error applyListEntries_error split: sum.splits)

section \<open>Cast failures\<close>

lemma cast_number_fails:
  "\<not> isFinite (js_Number rt raw) \<Longrightarrow>
     castValue rt ''number'' raw opts sep
       = (if strict opts then Inl (InvalidNumber raw) else Inr (VStr raw))"
  by (simp add: castValue_def Let_def)

lemma cast_boolean_fails:
  "parseBoolean raw = None \<Longrightarrow>
     castValue rt ''boolean'' raw opts sep
       = (if strict opts then Inl (InvalidBoolean raw) else Inr (VStr raw))"
  by (simp add: castValue_def Let_def)

lemma cast_date_fails:
  "date_parse rt raw = None \<Longrightarrow>
     castValue rt ''date'' raw opts sep
       = (if strict opts then Inl (InvalidDate raw) else Inr (VStr raw))"
  by (simp add: castValue_def Let_def)

lemma cast_json_fails:
  "json_parse rt raw = None \<Longrightarrow>
     castValue rt ''json'' raw opts sep
       = (if strict opts then Inl (InvalidJSON raw) else Inr (VStr raw))"
  by (simp add: castValue_def Let_def)


lemma castValue_fails:
  assumes "cast_fails rt ty raw"
  shows "castValue rt ty raw opts sep
           = (if strict opts then Inl (cast_error ty raw) else Inr (VStr raw))"
  using assms unfolding cast_fails_def
proof (elim disjE conjE)
  assume "ty = ''number''" and "\<not> isFinite (js_Number rt raw)"
  then show ?thesis by (simp add: cast_number_fails cast_error_def)
next
  assume "ty = ''boolean''" and "parseBoolean raw = None"
  then show ?thesis by (simp add: cast_boolean_fails cast_error_def)
next
  assume "ty = ''date''" and "date_parse rt raw = None"
  then show ?thesis by (simp add: cast_date_fails cast_error_def)
next
  assume "ty = ''json''" and "json_parse rt raw = None"
  then show ?thesis by (simp add: cast_json_fails cast_error_def)
qed

lemma step_cast:
  assumes "reaches_cast opts nm rawVal"
  shows "step rt opts (out, les) (nm, rawVal)
           = (case castValue rt (type (parseFieldName nm)) (js_String rawVal) opts
                     (arraySeparator (parseFieldName nm)) of
                Inl e \<Rightarrow> Inl e
              | Inr parsed \<Rightarrow>
                  (case assignField rt out (type (parseFieldName nm)) (key (parseFieldName nm)) parsed of
                     Inl e \<Rightarrow> Inl e
                   | Inr out1 \<Rightarrow> Inr (out1, les)))"
  using assms by (cases rawVal) (auto simp: reaches_cast_def step_def Let_def)

lemma parse_raises:
  assumes "consume rt opts (VObj [], []) es1 = Inr st1" and "step rt opts st1 entry = Inl e"
  shows "parseTypedFormData rt (es1 @ entry # es2) opts = Inl e"
  using assms by (simp add: parseTypedFormData_def consume_append)

text \<open>
  C4, as amended. For a cast with the declared type \<open>number\<close>, \<open>boolean\<close>, \<open>date\<close> or
  \<open>json\<close> whose failure condition holds (\<open>cast_fails\<close>: the numeric parse is not finite, no
  boolean word matches, the date does not parse, the JSON text is malformed), \<open>castValue\<close>
  raises under \<open>strict\<close> the error of that type with the raw string, and returns the raw
  string unchanged otherwise. For an entry that the loop casts (no list entry, no \<open>File\<close>,
  not skipped as blank) and whose cast fails: under \<open>strict\<close> the turn of the loop raises
  that error, and so does the parse of every input in which the entries before this one
  are consumed without an error; without \<open>strict\<close> the turn assigns the raw string at the
  path of the entry, by the rule of repeated fields. Without \<open>strict\<close> no cast raises, and
  the parse of any input raises none of the errors of the parser: what it can still end
  with is an exception of the engine on a property write.
\<close>

theorem cast_failure:
  "(cast_fails rt ty raw \<longrightarrow>
      castValue rt ty raw opts sep = (if strict opts then Inl (cast_error ty raw) else Inr (VStr raw)))
   \<and> (reaches_cast opts nm rawVal \<and> cast_fails rt (type (parseFieldName nm)) (js_String rawVal) \<longrightarrow>
        (if strict opts
         then step rt opts (out, les) (nm, rawVal)
                = Inl (cast_error (type (parseFieldName nm)) (js_String rawVal))
              \<and> (\<forall>es1 es2 st1.
                    consume rt opts (VObj [], []) es1 = Inr st1 \<longrightarrow>
                    parseTypedFormData rt (es1 @ (nm, rawVal) # es2) opts
                      = Inl (cast_error (type (parseFieldName nm)) (js_String rawVal)))
         else step rt opts (out, les) (nm, rawVal)
                = (case assignField rt out (type (parseFieldName nm)) (key (parseFieldName nm))
                          (VStr (js_String rawVal)) of
                     Inl e \<Rightarrow> Inl e
                   | Inr out1 \<Rightarrow> Inr (out1, les))))
   \<and> (\<not> strict opts \<longrightarrow>
        (\<exists>v. castValue rt ty raw opts sep = Inr v)
        \<and> (\<forall>entries e. parseTypedFormData rt entries opts = Inl e \<longrightarrow> \<not> parser_error e))"
proof (intro conjI impI allI)
  assume "cast_fails rt ty raw"
  then show "castValue rt ty raw opts sep
               = (if strict opts then Inl (cast_error ty raw) else Inr (VStr raw))"
    by (rule castValue_fails)
next
  let ?pf = "parseFieldName nm"
  let ?err = "cast_error (type ?pf) (js_String rawVal)"
  assume a: "reaches_cast opts nm rawVal \<and> cast_fails rt (type ?pf) (js_String rawVal)"
  then have r: "reaches_cast opts nm rawVal" and f: "cast_fails rt (type ?pf) (js_String rawVal)"
    by simp_all
  note c = castValue_fails [OF f, of opts "arraySeparator ?pf"]
  show "if strict opts
         then step rt opts (out, les) (nm, rawVal) = Inl ?err
              \<and> (\<forall>es1 es2 st1.
                    consume rt opts (VObj [], []) es1 = Inr st1 \<longrightarrow>
                    parseTypedFormData rt (es1 @ (nm, rawVal) # es2) opts = Inl ?err)
         else step rt opts (out, les) (nm, rawVal)
                = (case assignField rt out (type ?pf) (key ?pf) (VStr (js_String rawVal)) of
                     Inl e \<Rightarrow> Inl e
                   | Inr out1 \<Rightarrow> Inr (out1, les))"
  proof (cases "strict opts")
    case True
    have s: "step rt opts st (nm, rawVal) = Inl ?err" for st
      using step_cast [OF r, of rt "fst st" "snd st"] c True by simp
    have "parseTypedFormData rt (es1 @ (nm, rawVal) # es2) opts = Inl ?err"
      if "consume rt opts (VObj [], []) es1 = Inr st1" for es1 es2 st1
      using parse_raises [OF that s] .
    with s [of "(out, les)"] True show ?thesis by simp
  next
    case False
    with step_cast [OF r, of rt out les] c show ?thesis by simp
  qed
next
  assume "\<not> strict opts"
  then show "\<exists>v. castValue rt ty raw opts sep = Inr v" by (rule castValue_nonstrict)
next
  fix entries e
  assume "\<not> strict opts" and "parseTypedFormData rt entries opts = Inl e"
  then show "\<not> parser_error e" by (rule parse_error)
qed

theorem cast_failure_witness:
  "cast_fails digits_engine ''number'' ''abc'' \<and>
   reaches_cast (DEFAULT_OPTIONS\<lparr>strict := True\<rparr>) ''number::age'' (RawString ''abc'') \<and>
   reaches_cast DEFAULT_OPTIONS ''number::age'' (RawString ''abc'') \<and>
   cast_fails digits_engine (type (parseFieldName ''number::age'')) (js_String (RawString ''abc'')) \<and>
   strict (DEFAULT_OPTIONS\<lparr>strict := True\<rparr>) \<and> \<not> strict DEFAULT_OPTIONS \<and>
   castValue digits_engine ''number'' ''abc'' (DEFAULT_OPTIONS\<lparr>strict := True\<rparr>) None
     = Inl (InvalidNumber ''abc'') \<and>
   castValue digits_engine ''number'' ''abc'' DEFAULT_OPTIONS None = Inr (VStr ''abc'') \<and>
   consume digits_engine (DEFAULT_OPTIONS\<lparr>strict := True\<rparr>) (VObj [], [])
     [(''name'', RawString ''Ann'')] = Inr (VObj [(''name'', VStr ''Ann'')], []) \<and>
   parseTypedFormData digits_engine
     ([(''name'', RawString ''Ann'')] @ (''number::age'', RawString ''abc'') # [(''x'', RawString ''y'')])
     (DEFAULT_OPTIONS\<lparr>strict := True\<rparr>)
     = Inl (InvalidNumber ''abc'') \<and>
   step digits_engine DEFAULT_OPTIONS (VObj [], []) (''number::age'', RawString ''abc'')
     = Inr (VObj [(''age'', VStr ''abc'')], []) \<and>
   parseTypedFormData digits_engine [(''number::age'', RawString ''abc'')] DEFAULT_OPTIONS
     = Inr (VObj [(''age'', VStr ''abc'')])"
proof -
  let ?strict = "DEFAULT_OPTIONS\<lparr>strict := True\<rparr>"
  have f: "cast_fails digits_engine ''number'' ''abc''"
    by (simp add: cast_fails_def ev)
  have r1: "reaches_cast ?strict ''number::age'' (RawString ''abc'')"
    and r2: "reaches_cast DEFAULT_OPTIONS ''number::age'' (RawString ''abc'')"
    by (simp_all add: reaches_cast_def ev)
  have f2: "cast_fails digits_engine (type (parseFieldName ''number::age''))
              (js_String (RawString ''abc''))"
    by (simp add: cast_fails_def ev)
  have s: "strict ?strict" and n: "\<not> strict DEFAULT_OPTIONS" by (simp_all add: ev)
  have e: "cast_error (type (parseFieldName ''number::age'')) (js_String (RawString ''abc''))
             = InvalidNumber ''abc''"
    by (simp add: cast_error_def ev)
  have c1: "consume digits_engine ?strict (VObj [], []) [(''name'', RawString ''Ann'')]
              = Inr (VObj [(''name'', VStr ''Ann'')], [])"
    by (simp add: ev)
  from cast_failure [of digits_engine "''number''" "''abc''" ?strict None] f
  have a: "castValue digits_engine ''number'' ''abc'' ?strict None = Inl (InvalidNumber ''abc'')"
    by (simp add: cast_error_def)
  from cast_failure [of digits_engine "''number''" "''abc''" DEFAULT_OPTIONS None] f n
  have b: "castValue digits_engine ''number'' ''abc'' DEFAULT_OPTIONS None = Inr (VStr ''abc'')"
    by simp
  from cast_failure [of digits_engine _ _ ?strict _ "''number::age''" "RawString ''abc''"] r1 f2 s
  have "\<forall>es1 es2 st1.
          consume digits_engine ?strict (VObj [], []) es1 = Inr st1 \<longrightarrow>
          parseTypedFormData digits_engine (es1 @ (''number::age'', RawString ''abc'') # es2) ?strict
            = Inl (InvalidNumber ''abc'')"
    unfolding e by simp
  with c1 have p: "parseTypedFormData digits_engine
     ([(''name'', RawString ''Ann'')] @ (''number::age'', RawString ''abc'') # [(''x'', RawString ''y'')])
     ?strict = Inl (InvalidNumber ''abc'')"
    by blast
  from cast_failure [of digits_engine _ _ DEFAULT_OPTIONS _ "''number::age''" "RawString ''abc''"
      "VObj []" "[]"] r2 f2 n
  have "step digits_engine DEFAULT_OPTIONS (VObj [], []) (''number::age'', RawString ''abc'')
          = (case assignField digits_engine (VObj []) (type (parseFieldName ''number::age''))
                    (key (parseFieldName ''number::age'')) (VStr (js_String (RawString ''abc''))) of
               Inl e \<Rightarrow> Inl e
             | Inr out1 \<Rightarrow> Inr (out1, []))"
    by simp
  then have st: "step digits_engine DEFAULT_OPTIONS (VObj [], []) (''number::age'', RawString ''abc'')
          = Inr (VObj [(''age'', VStr ''abc'')], [])"
    by (simp add: ev)
  have c: "parseTypedFormData digits_engine [(''number::age'', RawString ''abc'')] DEFAULT_OPTIONS
     = Inr (VObj [(''age'', VStr ''abc'')])"
    by (simp add: ev)
  from f r1 r2 f2 s n a b c1 p st c show ?thesis by blast
qed

text \<open>
  C4 as it is stated fails in its last part: without \<open>strict\<close>, the input \<open>array::a=x\<close>,
  \<open>a.length=abc\<close> makes the parse raise. The second entry finds the number 1 at the path
  \<open>a.length\<close>, and the write of the array \<open>[1, "abc"]\<close> to the \<open>length\<close> of the array at \<open>a\<close>
  is refused by the engine with a \<open>RangeError\<close>. So does the input of a \<open>File\<close> at \<open>f\<close>
  followed by \<open>f.name=x\<close>: the second entry reads the name of the \<open>File\<close> at the path, and
  the write to that accessor, which has no setter, raises a \<open>TypeError\<close>.
\<close>

theorem nonstrict_raise_counterexample:
  "\<not> strict DEFAULT_OPTIONS \<and>
   parseTypedFormData digits_engine
     [(''array::a'', RawString ''x''), (''a.length'', RawString ''abc'')] DEFAULT_OPTIONS
   = Inl RangeError \<and>
   parseTypedFormData digits_engine
     [(''f'', RawFile 1), (''f.name'', RawString ''x'')] DEFAULT_OPTIONS
   = Inl TypeError"
  by (simp add: ev)

section \<open>A File at the path of a list group\<close>

text \<open>
  C3 on the code. The input holds a \<open>File\<close> at \<open>env\<close> and the list pair \<open>K\<close>, \<open>V\<close> of
  the group \<open>env\<close>. The node at the path of the group is no mapping, and the claim has it
  replaced with an empty mapping, which then gains the property: \<open>{env: {K: "V"}}\<close>. The
  code keeps the \<open>File\<close> and writes the property \<open>K\<close> on it: \<open>isPlainObject\<close> tests for
  \<open>null\<close>, arrays and dates only, and lets a \<open>File\<close> pass. An array at \<open>env\<close> is replaced,
  as the claim has it.
\<close>

theorem list_pair_on_file:
  "isPlainObject (VFile 7 []) \<and>
   parseTypedFormData digits_engine
     [(''env'', RawFile 7), (''list::key::env::0'', RawString ''K''),
      (''list::value::env::0'', RawString ''V'')] DEFAULT_OPTIONS
   = Inr (VObj [(''env'', VFile 7 [(''K'', VStr ''V'')])]) \<and>
   parseTypedFormData digits_engine
     [(''array::env'', RawString ''x''), (''list::key::env::0'', RawString ''K''),
      (''list::value::env::0'', RawString ''V'')] DEFAULT_OPTIONS
   = Inr (VObj [(''env'', VObj [(''K'', VStr ''V'')])])"
  by (simp add: ev)

end
